theory Spec2Isabelle
  imports Main "HOL-Library.Sublist"
begin

section \<open>Configuration (swagger.go, lines 47-146)\<close>

text \<open>
  The Go structs \<^verbatim>\<open>swaggerConfig\<close> and \<^verbatim>\<open>Config\<close>, field by field.  Go's \<^verbatim>\<open>int\<close>
  is only stored and copied here, never computed with, so it is an \<^typ>\<open>int\<close>.
\<close>

record swaggerConfig =
  sc_URL :: string
  sc_DocExpansion :: string
  sc_Title :: string
  sc_Oauth2RedirectURL :: string
  sc_DefaultModelsExpandDepth :: int
  sc_DeepLinking :: bool
  sc_PersistAuthorization :: bool
  sc_Oauth2DefaultClientID :: string
  sc_SyntaxHighlight :: bool

record Config =
  URL :: string
  DocExpansion :: string
  InstanceName :: string
  Title :: string
  DefaultModelsExpandDepth :: int
  DeepLinking :: bool
  PersistAuthorization :: bool
  Oauth2DefaultClientID :: string
  SyntaxHighlight :: bool

definition oauth2_redirect_js :: string where
  "oauth2_redirect_js =
     ''`${window.location.protocol}//${window.location.host}$'' @
     ''{window.location.pathname.split('' @ [CHR 0x27] @ ''/'' @ [CHR 0x27] @
     '').slice(0, window.location.pathname.split('' @ [CHR 0x27] @ ''/'' @ [CHR 0x27] @
     '').length - 1).join('' @ [CHR 0x27] @ ''/'' @ [CHR 0x27] @ '')}'' @
     ''/oauth2-redirect.html`''"

definition toSwaggerConfig :: "Config \<Rightarrow> swaggerConfig" where
  "toSwaggerConfig config =
     \<lparr> sc_URL = URL config,
       sc_DocExpansion = DocExpansion config,
       sc_Title = Title config,
       sc_Oauth2RedirectURL = oauth2_redirect_js,
       sc_DefaultModelsExpandDepth = DefaultModelsExpandDepth config,
       sc_DeepLinking = DeepLinking config,
       sc_PersistAuthorization = PersistAuthorization config,
       sc_Oauth2DefaultClientID = Oauth2DefaultClientID config,
       sc_SyntaxHighlight = SyntaxHighlight config \<rparr>"

text \<open>
  The eight option constructors.  Each Go function returns a closure \<^verbatim>\<open>func(*Config)\<close>
  that assigns one field; the closure is the function \<^typ>\<open>Config \<Rightarrow> Config\<close> returning the
  record after the assignment.
\<close>

definition SyntaxHighlight_opt :: "bool \<Rightarrow> Config \<Rightarrow> Config" where
  "SyntaxHighlight_opt syntaxHighlight c = c\<lparr>SyntaxHighlight := syntaxHighlight\<rparr>"

definition URL_opt :: "string \<Rightarrow> Config \<Rightarrow> Config" where
  "URL_opt url c = c\<lparr>URL := url\<rparr>"

definition DocExpansion_opt :: "string \<Rightarrow> Config \<Rightarrow> Config" where
  "DocExpansion_opt docExpansion c = c\<lparr>DocExpansion := docExpansion\<rparr>"

definition DeepLinking_opt :: "bool \<Rightarrow> Config \<Rightarrow> Config" where
  "DeepLinking_opt deepLinking c = c\<lparr>DeepLinking := deepLinking\<rparr>"

definition DefaultModelsExpandDepth_opt :: "int \<Rightarrow> Config \<Rightarrow> Config" where
  "DefaultModelsExpandDepth_opt depth c = c\<lparr>DefaultModelsExpandDepth := depth\<rparr>"

definition InstanceName_opt :: "string \<Rightarrow> Config \<Rightarrow> Config" where
  "InstanceName_opt name c = c\<lparr>InstanceName := name\<rparr>"

definition PersistAuthorization_opt :: "bool \<Rightarrow> Config \<Rightarrow> Config" where
  "PersistAuthorization_opt persistAuthorization c =
     c\<lparr>PersistAuthorization := persistAuthorization\<rparr>"

definition Oauth2DefaultClientID_opt :: "string \<Rightarrow> Config \<Rightarrow> Config" where
  "Oauth2DefaultClientID_opt oauth2DefaultClientID c =
     c\<lparr>Oauth2DefaultClientID := oauth2DefaultClientID\<rparr>"

text \<open>
  A call of one of the eight constructors, as a value: the constructor and its argument.
  \<open>apply_option\<close> is the closure the call returns, \<open>field_of\<close> the field that closure
  assigns.  The datatype only serves to quantify over "every option function".
\<close>

datatype field =
  F_URL | F_DocExpansion | F_InstanceName | F_Title | F_DefaultModelsExpandDepth
  | F_DeepLinking | F_PersistAuthorization | F_Oauth2DefaultClientID | F_SyntaxHighlight

datatype option_call =
  Call_SyntaxHighlight bool
  | Call_URL string
  | Call_DocExpansion string
  | Call_DeepLinking bool
  | Call_DefaultModelsExpandDepth int
  | Call_InstanceName string
  | Call_PersistAuthorization bool
  | Call_Oauth2DefaultClientID string

fun apply_option :: "option_call \<Rightarrow> Config \<Rightarrow> Config" where
  "apply_option (Call_SyntaxHighlight b) = SyntaxHighlight_opt b"
| "apply_option (Call_URL u) = URL_opt u"
| "apply_option (Call_DocExpansion d) = DocExpansion_opt d"
| "apply_option (Call_DeepLinking b) = DeepLinking_opt b"
| "apply_option (Call_DefaultModelsExpandDepth n) = DefaultModelsExpandDepth_opt n"
| "apply_option (Call_InstanceName n) = InstanceName_opt n"
| "apply_option (Call_PersistAuthorization b) = PersistAuthorization_opt b"
| "apply_option (Call_Oauth2DefaultClientID i) = Oauth2DefaultClientID_opt i"

fun field_of :: "option_call \<Rightarrow> field" where
  "field_of (Call_SyntaxHighlight b) = F_SyntaxHighlight"
| "field_of (Call_URL u) = F_URL"
| "field_of (Call_DocExpansion d) = F_DocExpansion"
| "field_of (Call_DeepLinking b) = F_DeepLinking"
| "field_of (Call_DefaultModelsExpandDepth n) = F_DefaultModelsExpandDepth"
| "field_of (Call_InstanceName n) = F_InstanceName"
| "field_of (Call_PersistAuthorization b) = F_PersistAuthorization"
| "field_of (Call_Oauth2DefaultClientID i) = F_Oauth2DefaultClientID"

text \<open>
  To speak of what a field holds whatever its type: \<open>read_field f c\<close> is the content of
  field \<open>f\<close> of \<open>c\<close>, and \<open>argument k\<close> the value the call \<open>k\<close> was given, both tagged with
  their Go type.
\<close>

datatype field_value = String_value string | Int_value int | Bool_value bool

fun read_field :: "field \<Rightarrow> Config \<Rightarrow> field_value" where
  "read_field F_URL c = String_value (URL c)"
| "read_field F_DocExpansion c = String_value (DocExpansion c)"
| "read_field F_InstanceName c = String_value (InstanceName c)"
| "read_field F_Title c = String_value (Title c)"
| "read_field F_DefaultModelsExpandDepth c = Int_value (DefaultModelsExpandDepth c)"
| "read_field F_DeepLinking c = Bool_value (DeepLinking c)"
| "read_field F_PersistAuthorization c = Bool_value (PersistAuthorization c)"
| "read_field F_Oauth2DefaultClientID c = String_value (Oauth2DefaultClientID c)"
| "read_field F_SyntaxHighlight c = Bool_value (SyntaxHighlight c)"

fun argument :: "option_call \<Rightarrow> field_value" where
  "argument (Call_SyntaxHighlight b) = Bool_value b"
| "argument (Call_URL u) = String_value u"
| "argument (Call_DocExpansion d) = String_value d"
| "argument (Call_DeepLinking b) = Bool_value b"
| "argument (Call_DefaultModelsExpandDepth n) = Int_value n"
| "argument (Call_InstanceName n) = String_value n"
| "argument (Call_PersistAuthorization b) = Bool_value b"
| "argument (Call_Oauth2DefaultClientID i) = String_value i"

text \<open>
  \<^verbatim>\<open>swag.Name\<close> is a constant of the swag package; the comment on \<^verbatim>\<open>InstanceName\<close>
  (line 126) gives its value.
\<close>

definition swag_Name :: string where
  "swag_Name = ''swagger''"

text \<open>
  The first half of \<^verbatim>\<open>WrapHandler\<close> (lines 150-163): the defaults, then the options
  applied from left to right.  \<^verbatim>\<open>SyntaxHighlight\<close> is absent from the composite literal,
  so it has Go's zero value.
\<close>

definition default_config :: Config where
  "default_config =
     \<lparr> URL = ''doc.json'',
       DocExpansion = ''list'',
       InstanceName = swag_Name,
       Title = ''Swagger UI'',
       DefaultModelsExpandDepth = 1,
       DeepLinking = True,
       PersistAuthorization = False,
       Oauth2DefaultClientID = '''',
       SyntaxHighlight = False \<rparr>"

definition apply_options :: "(Config \<Rightarrow> Config) list \<Rightarrow> Config \<Rightarrow> Config" where
  "apply_options options config = fold (\<lambda>c cfg. c cfg) options config"

section \<open>The regular expression (swagger.go, line 183)\<close>

text \<open>
  Go's \<^verbatim>\<open>regexp\<close> package matches leftmost-first: the match begins as early as possible,
  and among the matches beginning there it is the one a backtracking matcher finds first
  (a greedy star tries one more iteration before stopping, an alternation tries its left
  branch before its right one).  \<open>run r s c\<close> lists, in that order of preference, every way
  \<open>r\<close> can match a prefix of \<open>s\<close>: the input left over and the capture groups set so far.
  \<open>AnyChar\<close> is \<^verbatim>\<open>.\<close>, which does not match a newline.  A string is its bytes: Go
  steps through UTF-8 sequences where \<open>AnyChar\<close> steps through single bytes, which gives
  the same matches here, since the literals after \<^verbatim>\<open>.*\<close> are ASCII and can only begin
  where a sequence begins.  A star stops when an iteration consumes nothing; in this
  regex every iteration consumes one character.
\<close>

datatype regex =
  Lit string
  | AnyChar
  | Class "char list"
  | Concat regex regex
  | Alt regex regex
  | Star regex
  | Group nat regex

type_synonym captures = "nat \<Rightarrow> string option"

fun run :: "regex \<Rightarrow> string \<Rightarrow> captures \<Rightarrow> (string \<times> captures) list" where
  "run (Lit w) s c = (if prefix w s then [(drop (length w) s, c)] else [])"
| "run AnyChar s c =
     (case s of [] \<Rightarrow> [] | x # t \<Rightarrow> if x = CHR 0x0A then [] else [(t, c)])"
| "run (Class cs) s c =
     (case s of [] \<Rightarrow> [] | x # t \<Rightarrow> if x \<in> set cs then [(t, c)] else [])"
| "run (Concat r1 r2) s c = concat (map (\<lambda>(t, d). run r2 t d) (run r1 s c))"
| "run (Alt r1 r2) s c = run r1 s c @ run r2 s c"
| "run (Star r) s c =
     concat (map (\<lambda>(t, d). if length t < length s then run (Star r) t d else [])
                 (run r s c)) @ [(s, c)]"
| "run (Group n r) s c =
     map (\<lambda>(t, d). (t, d(n \<mapsto> take (length s - length t) s))) (run r s c)"

text \<open>The preferred match of \<open>r\<close> beginning exactly at the head of \<open>s\<close>.\<close>

definition match_here :: "regex \<Rightarrow> string \<Rightarrow> (string \<times> captures) option" where
  "match_here r s =
     (case run r s Map.empty of
        [] \<Rightarrow> None
      | (t, c) # _ \<Rightarrow> Some (take (length s - length t) s, c))"

text \<open>The leftmost match: the start positions are tried from the left.\<close>

fun search :: "regex \<Rightarrow> string \<Rightarrow> (string \<times> captures) option" where
  "search r [] = match_here r []"
| "search r (x # t) =
     (case match_here r (x # t) of Some m \<Rightarrow> Some m | None \<Rightarrow> search r t)"

text \<open>
  \<^verbatim>\<open>FindStringSubmatch\<close> for a regex with \<open>n\<close> capture groups: \<^verbatim>\<open>nil\<close> (the empty list)
  when there is no match, else the whole match followed by the text of groups 1 to \<open>n\<close>,
  a group that took no part in the match giving the empty string.
\<close>

definition FindStringSubmatch :: "regex \<Rightarrow> nat \<Rightarrow> string \<Rightarrow> string list" where
  "FindStringSubmatch r n s =
     (case search r s of
        None \<Rightarrow> []
      | Some (w, c) \<Rightarrow>
          w # map (\<lambda>i. case c i of None \<Rightarrow> [] | Some g \<Rightarrow> g) [1..<Suc n])"

text \<open>
  The alternatives of the second group, in the order of the source, and the alternation
  of a list of literals (the empty list, which does not occur, matches nothing).
\<close>

definition resource_names :: "string list" where
  "resource_names =
     [''index.html'', ''doc.json'', ''favicon-16x16.png'', ''favicon-32x32.png'',
      ''/oauth2-redirect.html'', ''swagger-ui.css'', ''swagger-ui.css.map'',
      ''swagger-ui.js'', ''swagger-ui.js.map'', ''swagger-ui-bundle.js'',
      ''swagger-ui-bundle.js.map'', ''swagger-ui-standalone-preset.js'',
      ''swagger-ui-standalone-preset.js.map'']"

fun alternation :: "string list \<Rightarrow> regex" where
  "alternation [] = Class []"
| "alternation [w] = Lit w"
| "alternation (w # ws) = Alt (Lit w) (alternation ws)"

definition matcher :: regex where
  "matcher =
     Concat (Group 1 (Star AnyChar))
       (Concat (Group 2 (alternation resource_names)) (Star (Class ''?|.'')))"

section \<open>\<^verbatim>\<open>filepath.Ext\<close>\<close>

text \<open>
  The Go library function scans the path from its end: the extension begins at the last
  dot of the last path element, and is empty when a separator or the beginning of the
  path is reached first.  \<open>ext_scan\<close> is that loop on the reversed path, \<open>acc\<close> the
  characters already passed.
\<close>

fun ext_scan :: "string \<Rightarrow> string \<Rightarrow> string" where
  "ext_scan [] acc = []"
| "ext_scan (x # xs) acc =
     (if x = CHR ''/'' then []
      else if x = CHR ''.'' then x # acc
      else ext_scan xs (x # acc))"

definition Ext :: "string \<Rightarrow> string" where
  "Ext path = ext_scan (rev path) []"

section \<open>The request context and the collaborators\<close>

text \<open>
  Of the request the handler reads the method and the string \<^verbatim>\<open>ctx.Request.URI().String()\<close>;
  \<open>URI\<close> is that string.
\<close>

record Request =
  Method :: string
  URI :: string

text \<open>
  hertz builds that string from the parts of the request URI as
  \<^verbatim>\<open>{Scheme}://{Host}{Path}\<close>, followed by \<^verbatim>\<open>?\<close> and the query when there is a query, and
  by \<^verbatim>\<open>#\<close> and the fragment when there is a fragment.  \<open>last_segment\<close> is the text of a
  path after its last slash.
\<close>

record URI_parts =
  uri_scheme :: string
  uri_host :: string
  uri_path :: string
  uri_query :: string
  uri_hash :: string

definition FullURI :: "URI_parts \<Rightarrow> string" where
  "FullURI u =
     uri_scheme u @ ''://'' @ uri_host u @ uri_path u @
     (if uri_query u = [] then [] else ''?'' @ uri_query u) @
     (if uri_hash u = [] then [] else ''#'' @ uri_hash u)"

definition last_segment :: "string \<Rightarrow> string" where
  "last_segment p = rev (takeWhile (\<lambda>x. x \<noteq> CHR ''/'') (rev p))"

text \<open>
  The response side of hertz's \<^verbatim>\<open>app.RequestContext\<close>: the status code (200 until one
  is set), the Content-Type header, the body written so far, and whether the context was
  aborted.
\<close>

record RequestContext =
  status :: nat
  content_type :: "string option"
  body :: string
  aborted :: bool

definition new_ctx :: RequestContext where
  "new_ctx = \<lparr> status = 200, content_type = None, body = [], aborted = False \<rparr>"

definition MethodGet :: string where
  "MethodGet = ''GET''"

definition StatusOK :: nat where
  "StatusOK = 200"

definition StatusNotFound :: nat where
  "StatusNotFound = 404"

definition StatusMethodNotAllowed :: nat where
  "StatusMethodNotAllowed = 405"

definition StatusInternalServerError :: nat where
  "StatusInternalServerError = 500"

text \<open>\<^verbatim>\<open>http.StatusText\<close>, on the codes the handler uses; the empty string otherwise.\<close>

definition StatusText :: "nat \<Rightarrow> string" where
  "StatusText code =
     (if code = 200 then ''OK''
      else if code = 404 then ''Not Found''
      else if code = 405 then ''Method Not Allowed''
      else if code = 500 then ''Internal Server Error''
      else [])"

text \<open>
  The four methods of the context the handler calls.  \<^verbatim>\<open>AbortWithStatus\<close> sets the code
  and aborts, writing nothing.  \<^verbatim>\<open>Header\<close> is only called with the key Content-Type.
  \<^verbatim>\<open>String\<close> sets the code and the plain-text content type and appends the text to the
  body.  \<^verbatim>\<open>Write\<close> appends to the body; the source tests its error result, so whether
  the write succeeds is an input (\<open>writable\<close>), and a failed write leaves the body as it was.
\<close>

definition AbortWithStatus :: "nat \<Rightarrow> RequestContext \<Rightarrow> RequestContext" where
  "AbortWithStatus code ctx = ctx\<lparr>status := code, aborted := True\<rparr>"

definition Header_Content_Type :: "string \<Rightarrow> RequestContext \<Rightarrow> RequestContext" where
  "Header_Content_Type v ctx = ctx\<lparr>content_type := Some v\<rparr>"

definition String :: "nat \<Rightarrow> string \<Rightarrow> RequestContext \<Rightarrow> RequestContext" where
  "String code text ctx =
     ctx\<lparr>status := code, content_type := Some ''text/plain; charset=utf-8'',
         body := body ctx @ text\<rparr>"

datatype error = ReadDocError | OpenFileError | ReadError | WriteError

definition Write :: "bool \<Rightarrow> string \<Rightarrow> RequestContext \<Rightarrow> RequestContext \<times> error option" where
  "Write writable p ctx =
     (if writable then (ctx\<lparr>body := body ctx @ p\<rparr>, None) else (ctx, Some WriteError))"

text \<open>
  A file of the Asset Store: its content, and the number of bytes after which reading it
  fails, if it does.  \<^verbatim>\<open>bytes.Buffer.ReadFrom\<close> returns the buffer filled up to the end of
  the file, or up to the failure together with the error.
\<close>

record File =
  content :: string
  fails_after :: "nat option"

definition ReadFrom :: "File \<Rightarrow> string \<times> error option" where
  "ReadFrom f =
     (case fails_after f of
        None \<Rightarrow> (content f, None)
      | Some k \<Rightarrow> (take k (content f), Some ReadError))"

text \<open>
  What a request finds around the handler: the Document Registry (\<^verbatim>\<open>swag.ReadDoc\<close>, which
  fails on a name that is not registered), the output of the template for a
  \<^verbatim>\<open>swaggerConfig\<close>, and whether writes to the context succeed.
\<close>

record env =
  ReadDoc :: "string \<Rightarrow> string option"
  Execute :: "swaggerConfig \<Rightarrow> string"
  writable :: bool

text \<open>The calls made to the collaborators, in the order they are made.\<close>

datatype call = ReadDoc_call string | OpenFile_call string | Execute_call

text \<open>
  What \<^verbatim>\<open>CustomWrapHandler\<close> closes over and the requests share: the \<^verbatim>\<open>Config\<close> behind
  the pointer, the two fields of the \<^verbatim>\<open>webdav.Handler\<close> it uses, and the \<^verbatim>\<open>sync.Once\<close>
  (\<open>once_done\<close>); \<open>calls\<close> records the collaborator calls made so far.
\<close>

record handler_state =
  config :: Config
  Prefix :: string
  FileSystem :: "string \<Rightarrow> File option"
  once_done :: bool
  calls :: "call list"

definition once_Do :: "(handler_state \<Rightarrow> handler_state) \<Rightarrow> handler_state \<Rightarrow> handler_state" where
  "once_Do f h = (if once_done h then h else (f h)\<lparr>once_done := True\<rparr>)"

definition log_call :: "call \<Rightarrow> handler_state \<Rightarrow> handler_state" where
  "log_call k h = h\<lparr>calls := calls h @ [k]\<rparr>"

section \<open>\<^verbatim>\<open>CustomWrapHandler\<close> and \<^verbatim>\<open>WrapHandler\<close> (swagger.go, lines 148-249)\<close>

text \<open>The switch on the extension (lines 205-216).\<close>

definition set_content_type :: "string \<Rightarrow> RequestContext \<Rightarrow> RequestContext" where
  "set_content_type ext ctx =
     (if ext = ''.html'' then Header_Content_Type ''text/html; charset=utf-8'' ctx
      else if ext = ''.css'' then Header_Content_Type ''text/css; charset=utf-8'' ctx
      else if ext = ''.js'' then Header_Content_Type ''application/javascript'' ctx
      else if ext = ''.png'' then Header_Content_Type ''image/png'' ctx
      else if ext = ''.json'' then Header_Content_Type ''application/json; charset=utf-8'' ctx
      else ctx)"

text \<open>The switch on the resource name (lines 218-247).\<close>

definition dispatch ::
  "env \<Rightarrow> string \<Rightarrow> handler_state \<Rightarrow> RequestContext \<Rightarrow> RequestContext \<times> handler_state" where
  "dispatch e path h ctx =
     (if path = ''index.html'' then
        (fst (Write (writable e) (Execute e (toSwaggerConfig (config h))) ctx),
         log_call Execute_call h)
      else if path = ''doc.json'' then
        (let h1 = log_call (ReadDoc_call (InstanceName (config h))) h in
         case ReadDoc e (InstanceName (config h)) of
           None \<Rightarrow> (AbortWithStatus StatusInternalServerError ctx, h1)
         | Some doc \<Rightarrow>
             (case Write (writable e) doc ctx of
                (ctx1, Some err) \<Rightarrow> (AbortWithStatus StatusInternalServerError ctx1, h1)
              | (ctx1, None) \<Rightarrow> (ctx1, h1)))
      else
        (let h1 = log_call (OpenFile_call path) h in
         case FileSystem h path of
           None \<Rightarrow> (AbortWithStatus StatusInternalServerError ctx, h1)
         | Some f \<Rightarrow>
             (case ReadFrom f of
                (buf, Some err) \<Rightarrow> (AbortWithStatus StatusInternalServerError ctx, h1)
              | (buf, None) \<Rightarrow>
                  (case Write (writable e) buf ctx of
                     (ctx1, Some err) \<Rightarrow> (AbortWithStatus StatusInternalServerError ctx1, h1)
                   | (ctx1, None) \<Rightarrow> (ctx1, h1)))))"

text \<open>The closure \<^verbatim>\<open>CustomWrapHandler\<close> returns (lines 185-248), on a fresh context.\<close>

definition serve :: "env \<Rightarrow> handler_state \<Rightarrow> Request \<Rightarrow> RequestContext \<times> handler_state" where
  "serve e h req =
     (if Method req \<noteq> MethodGet then (AbortWithStatus StatusMethodNotAllowed new_ctx, h)
      else
        (let matches = FindStringSubmatch matcher 2 (URI req) in
         if length matches \<noteq> 3 then
           (String StatusNotFound (StatusText StatusNotFound) new_ctx, h)
         else
           (let path = matches ! 2;
                h1 = once_Do (\<lambda>h'. h'\<lparr>Prefix := matches ! 1\<rparr>) h
            in dispatch e path h1 (set_content_type (Ext path) new_ctx))))"

text \<open>
  The part of \<^verbatim>\<open>CustomWrapHandler\<close> that runs before the closure is returned
  (lines 170-178): the fresh \<^verbatim>\<open>sync.Once\<close> and the two defaults written into the
  caller's \<^verbatim>\<open>Config\<close>.  The \<^verbatim>\<open>webdav.Handler\<close> is passed as its two fields.
\<close>

definition normalize :: "Config \<Rightarrow> Config" where
  "normalize cfg =
     (let c1 = (if InstanceName cfg = [] then cfg\<lparr>InstanceName := swag_Name\<rparr> else cfg)
      in if Title c1 = [] then c1\<lparr>Title := ''Swagger UI''\<rparr> else c1)"

definition CustomWrapHandler ::
  "Config \<Rightarrow> string \<Rightarrow> (string \<Rightarrow> File option) \<Rightarrow> handler_state" where
  "CustomWrapHandler cfg pfx fs =
     \<lparr> config = normalize cfg, Prefix = pfx, FileSystem = fs,
       once_done = False, calls = [] \<rparr>"

definition WrapHandler ::
  "string \<Rightarrow> (string \<Rightarrow> File option) \<Rightarrow> (Config \<Rightarrow> Config) list \<Rightarrow> handler_state" where
  "WrapHandler pfx fs options =
     CustomWrapHandler (apply_options options default_config) pfx fs"

text \<open>
  A run of one handler instance: the requests are served one after the other, each in the
  environment it arrives in; the responses are collected in order.  The closure shares one
  assignment between requests, the one inside \<^verbatim>\<open>once.Do\<close>, which \<^verbatim>\<open>sync.Once\<close> runs for
  one caller at a time; so requests served in parallel leave the shared state as some
  order of them served in turn does.
\<close>

fun serve_all ::
  "handler_state \<Rightarrow> (env \<times> Request) list \<Rightarrow> RequestContext list \<times> handler_state" where
  "serve_all h [] = ([], h)"
| "serve_all h ((e, req) # rest) =
     (case serve e h req of
        (ctx, h1) \<Rightarrow> (case serve_all h1 rest of (ctxs, h2) \<Rightarrow> (ctx # ctxs, h2)))"

section \<open>Auxiliary notions for the proofs\<close>

text \<open>
  \<open>name_at t\<close> is the alternative the second group takes when it is tried at the head of
  \<open>t\<close>: the first recognized name, in the order of the source, that \<open>t\<close> begins with.
  \<open>line_len s\<close> is the number of characters before the first newline of \<open>s\<close>, the
  longest text the first group can take.  \<open>tail_rx\<close> is the regex after the first group.
\<close>

definition name_at :: "string \<Rightarrow> string option" where
  "name_at t = find (\<lambda>n. prefix n t) resource_names"

definition line_len :: "string \<Rightarrow> nat" where
  "line_len s = length (takeWhile (\<lambda>x. x \<noteq> CHR 0x0A) s)"

definition tail_rx :: regex where
  "tail_rx = Concat (Group 2 (alternation resource_names)) (Star (Class ''?|.''))"

definition matched :: "Request \<Rightarrow> bool" where
  "matched req \<longleftrightarrow>
     Method req = MethodGet \<and> length (FindStringSubmatch matcher 2 (URI req)) = 3"

text \<open>
  The fixtures of \<^verbatim>\<open>TestCustomWrapHandler\<close>: the zero \<^verbatim>\<open>Config\<close>, the document of
  \<^verbatim>\<open>mockedSwag\<close>, the registry before and after \<^verbatim>\<open>swag.Register\<close>, and a small Asset
  Store, one of whose files fails while it is read.  \<open>matched\<close> says that a request
  passes both tests at the head of the closure.
\<close>

definition test_doc :: string where
  "test_doc = ''{'' @ [CHR 0x0A] @ ''}''"

definition unregistered_env :: env where
  "unregistered_env =
     \<lparr> ReadDoc = (\<lambda>name. None),
       Execute = (\<lambda>sc. ''<title>'' @ sc_Title sc @ ''</title>''),
       writable = True \<rparr>"

definition test_env :: env where
  "test_env =
     \<lparr> ReadDoc = (\<lambda>name. if name = swag_Name then Some test_doc else None),
       Execute = (\<lambda>sc. ''<title>'' @ sc_Title sc @ ''</title>''),
       writable = True \<rparr>"

definition test_files :: "string \<Rightarrow> File option" where
  "test_files name =
     (if name = ''favicon-16x16.png'' then Some \<lparr> content = ''PNG16'', fails_after = None \<rparr>
      else if name = ''swagger-ui.css'' then Some \<lparr> content = ''body{}'', fails_after = None \<rparr>
      else if name = ''swagger-ui-bundle.js'' then
        Some \<lparr> content = ''var bundle;'', fails_after = None \<rparr>
      else if name = ''swagger-ui.js'' then Some \<lparr> content = ''var ui;'', fails_after = Some 3 \<rparr>
      else None)"

definition zero_config :: Config where
  "zero_config =
     \<lparr> URL = [], DocExpansion = [], InstanceName = [], Title = [],
       DefaultModelsExpandDepth = 0, DeepLinking = False, PersistAuthorization = False,
       Oauth2DefaultClientID = [], SyntaxHighlight = False \<rparr>"

definition test_handler :: handler_state where
  "test_handler = CustomWrapHandler zero_config [] test_files"

definition get :: "string \<Rightarrow> Request" where
  "get uri = \<lparr> Method = ''GET'', URI = uri \<rparr>"

section \<open>The matches of the regular expression\<close>

text \<open>
  The matches \<open>run\<close> lists for the parts of \<open>matcher\<close>, in closed form.  A star over a
  single-character pattern offers every length from the longest down to zero; an
  alternation of literals offers the literals that fit, in their order.
\<close>

lemma run_alternation:
  "run (alternation ws) s c = map (\<lambda>n. (drop (length n) s, c)) (filter (\<lambda>n. prefix n s) ws)"
proof (induction ws rule: alternation.induct)
  case 1
  show ?case by (simp split: list.split)
next
  case (2 w)
  show ?case by simp
next
  case (3 w v ws)
  then show ?case by simp
qed

lemma run_names_group:
  "run (Group 2 (alternation ws)) s c =
     map (\<lambda>n. (drop (length n) s, c(2 \<mapsto> n))) (filter (\<lambda>n. prefix n s) ws)"
proof -
  have "\<And>n. prefix n s \<Longrightarrow> take (length s - (length s - length n)) s = n"
    by (auto simp: prefix_def)
  then show ?thesis
    by (simp add: run_alternation comp_def cong: map_cong)
qed

lemma run_star_class:
  "run (Star (Class cs)) s c =
     map (\<lambda>k. (drop k s, c)) (rev [0..<Suc (length (takeWhile (\<lambda>x. x \<in> set cs) s))])"
proof (induction s)
  case Nil
  show ?case by simp
next
  case (Cons x t)
  show ?case
  proof (cases "x \<in> set cs")
    case True
    have "run (Star (Class cs)) (x # t) c = run (Star (Class cs)) t c @ [(x # t, c)]"
      using True by simp
    also have "\<dots> = map (\<lambda>k. (drop k (x # t), c))
        (rev [0..<Suc (Suc (length (takeWhile (\<lambda>x. x \<in> set cs) t)))])"
      unfolding Cons.IH
      by (subst (2) upt_conv_Cons) (simp_all add: map_Suc_upt [symmetric] rev_map comp_def del: upt_Suc)
    finally show ?thesis using True by simp
  next
    case False
    then show ?thesis by simp
  qed
qed

lemma run_star_any:
  "run (Star AnyChar) s c =
     map (\<lambda>k. (drop k s, c)) (rev [0..<Suc (length (takeWhile (\<lambda>x. x \<noteq> CHR 0x0A) s))])"
proof (induction s)
  case Nil
  show ?case by simp
next
  case (Cons x t)
  show ?case
  proof (cases "x = CHR 0x0A")
    case False
    have "run (Star AnyChar) (x # t) c = run (Star AnyChar) t c @ [(x # t, c)]"
      using False by simp
    also have "\<dots> = map (\<lambda>k. (drop k (x # t), c))
        (rev [0..<Suc (Suc (length (takeWhile (\<lambda>x. x \<noteq> CHR 0x0A) t)))])"
      unfolding Cons.IH
      by (subst (2) upt_conv_Cons) (simp_all add: map_Suc_upt [symmetric] rev_map comp_def del: upt_Suc)
    finally show ?thesis using False by simp
  next
    case True
    then show ?thesis by simp
  qed
qed

lemma rev_upt_Suc: "rev [0..<Suc m] = m # rev [0..<m]"
  by simp

lemma filter_find_None: "filter P xs = [] \<longleftrightarrow> find P xs = None"
  by (induction xs) auto

lemma filter_find_Some: "find P xs = Some x \<Longrightarrow> \<exists>ys. filter P xs = x # ys"
  by (induction xs) (auto split: if_splits)

lemma run_tail_None: "name_at t = None \<Longrightarrow> run tail_rx t d = []"
  unfolding tail_rx_def name_at_def
  by (simp only: run.simps(4) run_names_group filter_find_None [symmetric]) simp

lemma run_star_class_hd:
  "\<exists>rest. run (Star (Class cs)) s c = (dropWhile (\<lambda>x. x \<in> set cs) s, c) # rest"
  by (simp only: run_star_class rev_upt_Suc) (simp add: dropWhile_eq_drop)

lemma run_tail_Some:
  assumes "name_at t = Some n"
  shows "\<exists>rest. run tail_rx t d =
     (dropWhile (\<lambda>x. x \<in> set ''?|.'') (drop (length n) t), d(2 \<mapsto> n)) # rest"
proof -
  obtain ys where f: "filter (\<lambda>n. prefix n t) resource_names = n # ys"
    using assms filter_find_Some unfolding name_at_def by fastforce
  obtain rest where r: "run (Star (Class ''?|.'')) (drop (length n) t) (d(2 \<mapsto> n)) =
      (dropWhile (\<lambda>x. x \<in> set ''?|.'') (drop (length n) t), d(2 \<mapsto> n)) # rest"
    using run_star_class_hd by blast
  have "run tail_rx t d =
      concat (map (\<lambda>(t', d'). run (Star (Class ''?|.'')) t' d')
        (map (\<lambda>n. (drop (length n) t, d(2 \<mapsto> n))) (n # ys)))"
    unfolding tail_rx_def by (simp only: run.simps(4) run_names_group f)
  then show ?thesis
    by (simp add: r del: run.simps)
qed

lemma run_group1:
  "run (Group 1 (Star AnyChar)) s c =
     map (\<lambda>k. (drop k s, c(1 \<mapsto> take k s))) (rev [0..<Suc (line_len s)])"
proof -
  have "line_len s \<le> length s"
    unfolding line_len_def by (rule length_takeWhile_le)
  then have "\<And>k. k \<in> set (rev [0..<Suc (line_len s)]) \<Longrightarrow> length s - (length s - k) = k"
    by auto
  then show ?thesis
    by (simp only: run.simps(7) run_star_any line_len_def [symmetric] map_map comp_def
          prod.case length_drop cong: map_cong)
qed

lemma run_matcher:
  "run matcher s c =
     concat (map (\<lambda>k. run tail_rx (drop k s) (c(1 \<mapsto> take k s))) (rev [0..<Suc (line_len s)]))"
  unfolding matcher_def tail_rx_def [symmetric]
  by (simp only: run.simps(4) run_group1 map_map comp_def prod.case)

lemma rev_upt_split:
  assumes "k \<le> m"
  shows "rev [0..<Suc m] = rev [Suc k..<Suc m] @ k # rev [0..<k]"
proof -
  have "[0..<Suc m] = [0..<k] @ [k..<Suc m]"
    using assms upt_add_eq_append [of 0 k "Suc m - k"] by simp
  also have "[k..<Suc m] = k # [Suc k..<Suc m]"
    using assms by (simp add: upt_conv_Cons)
  finally show ?thesis by simp
qed

lemma match_here_miss:
  assumes "\<forall>k\<le>line_len s. name_at (drop k s) = None"
  shows "match_here matcher s = None"
proof -
  have "run matcher s Map.empty = []"
    unfolding run_matcher using assms by (auto simp: run_tail_None)
  then show ?thesis by (simp add: match_here_def)
qed

lemma match_here_hit:
  assumes k: "k \<le> line_len s" and n: "name_at (drop k s) = Some n"
    and later: "\<forall>j. k < j \<and> j \<le> line_len s \<longrightarrow> name_at (drop j s) = None"
  shows "\<exists>w. match_here matcher s = Some (w, [1 \<mapsto> take k s, 2 \<mapsto> n])"
proof -
  let ?f = "\<lambda>k. run tail_rx (drop k s) (Map.empty(1 \<mapsto> take k s))"
  obtain t rest where hd: "?f k = (t, [1 \<mapsto> take k s, 2 \<mapsto> n]) # rest"
    using run_tail_Some [OF n] by blast
  have "\<forall>j\<in>set (rev [Suc k..<Suc (line_len s)]). ?f j = []"
    using later by (auto simp: run_tail_None)
  then have "run matcher s Map.empty =
      (t, [1 \<mapsto> take k s, 2 \<mapsto> n]) # (rest @ concat (map ?f (rev [0..<k])))"
    unfolding run_matcher rev_upt_split [OF k] using hd by simp
  then show ?thesis by (simp add: match_here_def)
qed

lemma match_here_cases:
  "(match_here matcher s = None \<and> (\<forall>k\<le>line_len s. name_at (drop k s) = None)) \<or>
   (\<exists>k n w. k \<le> line_len s \<and> name_at (drop k s) = Some n \<and>
      (\<forall>j. k < j \<and> j \<le> line_len s \<longrightarrow> name_at (drop j s) = None) \<and>
      match_here matcher s = Some (w, [1 \<mapsto> take k s, 2 \<mapsto> n]))"
proof (cases "\<exists>k\<le>line_len s. name_at (drop k s) \<noteq> None")
  case False
  then show ?thesis using match_here_miss by auto
next
  case True
  define P where "P k \<longleftrightarrow> k \<le> line_len s \<and> name_at (drop k s) \<noteq> None" for k
  from True have ex: "\<exists>k. P k" by (auto simp: P_def)
  have bound: "\<forall>y. P y \<longrightarrow> y \<le> line_len s" by (simp add: P_def)
  define k where "k = (GREATEST k. P k)"
  have Pk: "P k" unfolding k_def using ex bound by (metis GreatestI_ex_nat)
  have max: "\<And>j. P j \<Longrightarrow> j \<le> k" unfolding k_def using bound by (metis Greatest_le_nat)
  from Pk obtain n where n: "name_at (drop k s) = Some n" and kl: "k \<le> line_len s"
    by (auto simp: P_def)
  have later: "\<forall>j. k < j \<and> j \<le> line_len s \<longrightarrow> name_at (drop j s) = None"
  proof (intro allI impI)
    fix j assume j: "k < j \<and> j \<le> line_len s"
    show "name_at (drop j s) = None"
    proof (rule ccontr)
      assume "name_at (drop j s) \<noteq> None"
      then have "P j" using j by (simp add: P_def)
      then show False using max j by fastforce
    qed
  qed
  show ?thesis using match_here_hit [OF kl n later] kl n later by blast
qed

text \<open>
  From the preferred match at one start to the leftmost match: \<open>search\<close> succeeds exactly
  when some recognized name occurs in the string, and then the match starts at the head of
  the first line that holds one and its second group is the last name on that line.
\<close>

lemma name_at_None_iff: "name_at t = None \<longleftrightarrow> (\<forall>n\<in>set resource_names. \<not> prefix n t)"
  by (auto simp: name_at_def find_None_iff)

lemma name_at_SomeD: "name_at t = Some n \<Longrightarrow> n \<in> set resource_names \<and> prefix n t"
  unfolding name_at_def by (auto simp: find_Some_iff)

lemma no_name_iff:
  "(\<forall>k. name_at (drop k s) = None) \<longleftrightarrow>
   (\<forall>a n b. n \<in> set resource_names \<longrightarrow> s \<noteq> a @ n @ b)"
proof
  assume h: "\<forall>k. name_at (drop k s) = None"
  show "\<forall>a n b. n \<in> set resource_names \<longrightarrow> s \<noteq> a @ n @ b"
  proof (intro allI impI notI)
    fix a n b assume n: "n \<in> set resource_names" and s: "s = a @ n @ b"
    have "prefix n (drop (length a) s)" by (simp add: s)
    then show False using h n by (auto simp: name_at_None_iff)
  qed
next
  assume h: "\<forall>a n b. n \<in> set resource_names \<longrightarrow> s \<noteq> a @ n @ b"
  show "\<forall>k. name_at (drop k s) = None"
  proof (intro allI, rule ccontr)
    fix k assume "name_at (drop k s) \<noteq> None"
    then obtain n where "n \<in> set resource_names" "prefix n (drop k s)"
      by (auto simp: name_at_None_iff)
    then obtain b where "drop k s = n @ b" by (auto simp: prefix_def)
    then have "s = take k s @ n @ b" by (metis append_take_drop_id)
    then show False using h \<open>n \<in> set resource_names\<close> by blast
  qed
qed

lemma match_here_None_iff:
  "match_here matcher s = None \<longleftrightarrow> (\<forall>k\<le>line_len s. name_at (drop k s) = None)"
  using match_here_cases [of s] match_here_miss [of s] by auto

lemma search_None_iff:
  "search matcher s = None \<longleftrightarrow> (\<forall>k. name_at (drop k s) = None)"
proof (induction s)
  case Nil
  show ?case by (simp add: match_here_None_iff line_len_def)
next
  case (Cons x t)
  show ?case
  proof
    assume "search matcher (x # t) = None"
    then have m: "match_here matcher (x # t) = None" and s: "search matcher t = None"
      by (auto split: option.splits)
    show "\<forall>k. name_at (drop k (x # t)) = None"
    proof
      fix k show "name_at (drop k (x # t)) = None"
      proof (cases k)
        case 0
        have "\<forall>k\<le>line_len (x # t). name_at (drop k (x # t)) = None"
          using m by (simp add: match_here_None_iff)
        from this [rule_format, of 0] show ?thesis using 0 by simp
      next
        case (Suc j)
        then show ?thesis using s Cons.IH by simp
      qed
    qed
  next
    assume h: "\<forall>k. name_at (drop k (x # t)) = None"
    then have "match_here matcher (x # t) = None" by (simp add: match_here_None_iff)
    moreover have "\<forall>k. name_at (drop k t) = None"
    proof
      fix k show "name_at (drop k t) = None" using h [rule_format, of "Suc k"] by simp
    qed
    ultimately show "search matcher (x # t) = None" using Cons.IH by simp
  qed
qed

lemma line_len_append:
  "CHR 0x0A \<notin> set p \<Longrightarrow> line_len (p @ r) = length p + line_len r"
  unfolding line_len_def by (induction p) auto

lemma take_line_no_newline: "k \<le> line_len s \<Longrightarrow> CHR 0x0A \<notin> set (take k s)"
proof (induction s arbitrary: k)
  case Nil
  show ?case by simp
next
  case (Cons x t)
  show ?case
  proof (cases k)
    case 0
    then show ?thesis by simp
  next
    case (Suc j)
    with Cons.prems have x: "x \<noteq> CHR 0x0A" and j: "j \<le> line_len t"
      by (auto simp: line_len_def split: if_splits)
    show ?thesis using Cons.IH [OF j] x Suc by simp
  qed
qed

lemma match_here_SomeD:
  assumes "match_here matcher s = Some (w, c)"
  shows "\<exists>p n rest. s = p @ n @ rest \<and> c = [1 \<mapsto> p, 2 \<mapsto> n] \<and> name_at (n @ rest) = Some n
           \<and> CHR 0x0A \<notin> set p
           \<and> (\<forall>j. 0 < j \<and> length p + j \<le> line_len s \<longrightarrow> name_at (drop j (n @ rest)) = None)"
proof -
  from match_here_cases [of s] assms obtain k n where
    k: "k \<le> line_len s" and n: "name_at (drop k s) = Some n"
    and later: "\<forall>j. k < j \<and> j \<le> line_len s \<longrightarrow> name_at (drop j s) = None"
    and c: "c = [1 \<mapsto> take k s, 2 \<mapsto> n]"
    by auto
  have kl: "k \<le> length s"
    using k length_takeWhile_le [of "\<lambda>x. x \<noteq> CHR 0x0A" s] by (simp add: line_len_def)
  from name_at_SomeD [OF n] obtain rest where rest: "drop k s = n @ rest"
    by (auto simp: prefix_def)
  have s: "s = take k s @ n @ rest" using rest by (metis append_take_drop_id)
  have "\<forall>j. 0 < j \<and> length (take k s) + j \<le> line_len s \<longrightarrow> name_at (drop j (n @ rest)) = None"
  proof (intro allI impI)
    fix j assume j: "0 < j \<and> length (take k s) + j \<le> line_len s"
    then have "k < k + j \<and> k + j \<le> line_len s" using kl by simp
    then have "name_at (drop (k + j) s) = None" using later by blast
    moreover have "drop (k + j) s = drop j (drop k s)" by (simp add: add.commute)
    ultimately show "name_at (drop j (n @ rest)) = None" using rest by simp
  qed
  moreover have "name_at (n @ rest) = Some n" using n rest by simp
  moreover note s c take_line_no_newline [OF k]
  ultimately show ?thesis by blast
qed

lemma search_SomeD:
  "search matcher s = Some (w, c) \<Longrightarrow>
     \<exists>pre p n rest. s = pre @ p @ n @ rest \<and> c = [1 \<mapsto> p, 2 \<mapsto> n]
       \<and> name_at (n @ rest) = Some n \<and> CHR 0x0A \<notin> set p
       \<and> (pre = [] \<or> last pre = CHR 0x0A)
       \<and> (\<forall>j. 0 < j \<and> j \<le> line_len (n @ rest) \<longrightarrow> name_at (drop j (n @ rest)) = None)
       \<and> (\<forall>j < length pre. name_at (drop j s) = None)"
proof (induction s)
  case Nil
  then have "match_here matcher [] = Some (w, c)" by simp
  from match_here_SomeD [OF this] show ?case by (auto simp: line_len_def)
next
  case (Cons x t)
  show ?case
  proof (cases "match_here matcher (x # t)")
    case (Some m)
    then have m: "match_here matcher (x # t) = Some (w, c)" using Cons.prems by simp
    from match_here_SomeD [OF m] obtain p n rest where
      s: "x # t = p @ n @ rest" and c: "c = [1 \<mapsto> p, 2 \<mapsto> n]"
      and n: "name_at (n @ rest) = Some n" and p: "CHR 0x0A \<notin> set p"
      and later: "\<forall>j. 0 < j \<and> length p + j \<le> line_len (x # t) \<longrightarrow> name_at (drop j (n @ rest)) = None"
      by blast
    have "line_len (x # t) = length p + line_len (n @ rest)"
      using line_len_append [OF p] s by simp
    then have "\<forall>j. 0 < j \<and> j \<le> line_len (n @ rest) \<longrightarrow> name_at (drop j (n @ rest)) = None"
      using later by simp
    then have "x # t = [] @ p @ n @ rest \<and> c = [1 \<mapsto> p, 2 \<mapsto> n]
       \<and> name_at (n @ rest) = Some n \<and> CHR 0x0A \<notin> set p
       \<and> ([] = [] \<or> last [] = CHR 0x0A)
       \<and> (\<forall>j. 0 < j \<and> j \<le> line_len (n @ rest) \<longrightarrow> name_at (drop j (n @ rest)) = None)
       \<and> (\<forall>j < length ([]::string). name_at (drop j (x # t)) = None)"
      using s c n p by simp
    then show ?thesis by blast
  next
    case None
    then have "search matcher t = Some (w, c)" using Cons.prems by simp
    from Cons.IH [OF this] obtain pre p n rest where
      t: "t = pre @ p @ n @ rest" and c: "c = [1 \<mapsto> p, 2 \<mapsto> n]"
      and n: "name_at (n @ rest) = Some n" and p: "CHR 0x0A \<notin> set p"
      and pre: "pre = [] \<or> last pre = CHR 0x0A"
      and later: "\<forall>j. 0 < j \<and> j \<le> line_len (n @ rest) \<longrightarrow> name_at (drop j (n @ rest)) = None"
      and before: "\<forall>j < length pre. name_at (drop j t) = None"
      by blast
    from None have miss: "\<forall>k\<le>line_len (x # t). name_at (drop k (x # t)) = None"
      by (simp add: match_here_None_iff)
    have last: "last (x # pre) = CHR 0x0A"
    proof (cases "pre = []")
      case False
      then show ?thesis using pre by simp
    next
      case True
      show ?thesis
      proof (rule ccontr)
        assume "last (x # pre) \<noteq> CHR 0x0A"
        then have x: "x \<noteq> CHR 0x0A" using True by simp
        then have "CHR 0x0A \<notin> set (x # p)" using p by simp
        from line_len_append [OF this, of "n @ rest"]
        have "Suc (length p) \<le> line_len (x # t)" using t True by simp
        then have "name_at (drop (Suc (length p)) (x # t)) = None" using miss by blast
        then show False using n t True by simp
      qed
    qed
    have before': "\<forall>j < length (x # pre). name_at (drop j (x # t)) = None"
    proof (intro allI impI)
      fix j assume j: "j < length (x # pre)"
      show "name_at (drop j (x # t)) = None"
      proof (cases j)
        case 0
        then show ?thesis using miss [rule_format, of 0] by simp
      next
        case (Suc i)
        then show ?thesis using before j by simp
      qed
    qed
    have "x # t = (x # pre) @ p @ n @ rest" using t by simp
    then show ?thesis using c n p last later before' by blast
  qed
qed

subsection \<open>\<open>FindStringSubmatch\<close> on \<open>matcher\<close>\<close>

lemma upt_groups: "[Suc 0..<3] = [Suc 0, 2]"
  by (simp add: upt_rec)

lemma FindStringSubmatch_Nil_iff:
  "FindStringSubmatch matcher 2 s = [] \<longleftrightarrow>
     (\<forall>a n b. n \<in> set resource_names \<longrightarrow> s \<noteq> a @ n @ b)"
proof -
  have "FindStringSubmatch matcher 2 s = [] \<longleftrightarrow> search matcher s = None"
    by (simp add: FindStringSubmatch_def split: option.splits)
  then show ?thesis by (simp add: search_None_iff no_name_iff)
qed

lemma FindStringSubmatch_length:
  "length (FindStringSubmatch r 2 s) \<noteq> 3 \<longleftrightarrow> FindStringSubmatch r 2 s = []"
  by (simp add: FindStringSubmatch_def split: option.splits)

lemma FindStringSubmatch_match:
  assumes "FindStringSubmatch matcher 2 s \<noteq> []"
  shows "\<exists>m0 pre p n rest. FindStringSubmatch matcher 2 s = [m0, p, n]
       \<and> s = pre @ p @ n @ rest
       \<and> name_at (n @ rest) = Some n \<and> CHR 0x0A \<notin> set p
       \<and> (pre = [] \<or> last pre = CHR 0x0A)
       \<and> (\<forall>j. 0 < j \<and> j \<le> line_len (n @ rest) \<longrightarrow> name_at (drop j (n @ rest)) = None)
       \<and> (\<forall>j < length pre. name_at (drop j s) = None)"
proof -
  from assms obtain w c where sc: "search matcher s = Some (w, c)"
    by (auto simp: FindStringSubmatch_def split: option.splits)
  from search_SomeD [OF sc] obtain pre p n rest where
    h: "s = pre @ p @ n @ rest" "c = [1 \<mapsto> p, 2 \<mapsto> n]"
       "name_at (n @ rest) = Some n" "CHR 0x0A \<notin> set p"
       "pre = [] \<or> last pre = CHR 0x0A"
       "\<forall>j. 0 < j \<and> j \<le> line_len (n @ rest) \<longrightarrow> name_at (drop j (n @ rest)) = None"
       "\<forall>j < length pre. name_at (drop j s) = None"
    by blast
  have "FindStringSubmatch matcher 2 s = [w, p, n]"
    using sc h(2) by (simp add: FindStringSubmatch_def upt_groups)
  then show ?thesis using h by blast
qed

lemma search_match_here:
  "match_here r s = Some m \<Longrightarrow> search r s = Some m"
  by (cases s) simp_all

lemma FindStringSubmatch_last_name:
  assumes pre: "CHR 0x0A \<notin> set pre" and n: "name_at (n @ rest) = Some n"
    and later: "\<forall>j. 0 < j \<and> j \<le> line_len (n @ rest) \<longrightarrow> name_at (drop j (n @ rest)) = None"
  shows "\<exists>m0. FindStringSubmatch matcher 2 (pre @ n @ rest) = [m0, pre, n]"
proof -
  let ?s = "pre @ n @ rest"
  have ll: "line_len ?s = length pre + line_len (n @ rest)"
    using line_len_append [OF pre] by simp
  have k: "length pre \<le> line_len ?s" using ll by simp
  have n': "name_at (drop (length pre) ?s) = Some n" using n by simp
  have later': "\<forall>j. length pre < j \<and> j \<le> line_len ?s \<longrightarrow> name_at (drop j ?s) = None"
  proof (intro allI impI)
    fix j assume j: "length pre < j \<and> j \<le> line_len ?s"
    then have "0 < j - length pre \<and> j - length pre \<le> line_len (n @ rest)"
      using ll by auto
    then have "name_at (drop (j - length pre) (n @ rest)) = None" using later by blast
    moreover have "drop j ?s = drop (j - length pre) (n @ rest)" using j by simp
    ultimately show "name_at (drop j ?s) = None" by simp
  qed
  from match_here_hit [OF k n' later'] obtain w where
    "match_here matcher ?s = Some (w, [1 \<mapsto> take (length pre) ?s, 2 \<mapsto> n])" by blast
  then have "search matcher ?s = Some (w, [1 \<mapsto> pre, 2 \<mapsto> n])"
    using search_match_here by fastforce
  then have "FindStringSubmatch matcher 2 ?s = [w, pre, n]"
    by (simp add: FindStringSubmatch_def upt_groups)
  then show ?thesis by blast
qed

lemma name_at_doc_json: "name_at ''doc.json'' = Some ''doc.json''"
  by (simp add: name_at_def resource_names_def)

lemma doc_json_suffixes:
  "0 < j \<Longrightarrow> name_at (drop j ''doc.json'') = None"
proof -
  assume j: "0 < j"
  consider "j = 1" | "j = 2" | "j = 3" | "j = 4" | "j = 5" | "j = 6" | "j = 7" | "8 \<le> j"
    using j by linarith
  then show ?thesis
    by cases (simp_all add: name_at_def resource_names_def)
qed

lemma FindStringSubmatch_doc_json:
  assumes "CHR 0x0A \<notin> set pre"
  shows "\<exists>m0. FindStringSubmatch matcher 2 (pre @ ''doc.json'') = [m0, pre, ''doc.json'']"
  using FindStringSubmatch_last_name [OF assms, of "''doc.json''" "[]"]
    name_at_doc_json doc_json_suffixes by simp

section \<open>The handler, case by case\<close>

lemma serve_not_get:
  "Method req \<noteq> MethodGet \<Longrightarrow>
     serve e h req = (AbortWithStatus StatusMethodNotAllowed new_ctx, h)"
  by (simp add: serve_def)

lemma serve_unmatched:
  "Method req = MethodGet \<Longrightarrow> FindStringSubmatch matcher 2 (URI req) = [] \<Longrightarrow>
     serve e h req = (String StatusNotFound (StatusText StatusNotFound) new_ctx, h)"
  by (simp add: serve_def)

lemma serve_matched:
  "Method req = MethodGet \<Longrightarrow> FindStringSubmatch matcher 2 (URI req) = [m0, m1, m2] \<Longrightarrow>
     serve e h req =
       dispatch e m2 (once_Do (\<lambda>h'. h'\<lparr>Prefix := m1\<rparr>) h) (set_content_type (Ext m2) new_ctx)"
  by (simp add: serve_def Let_def)

lemma once_Do_fields [simp]:
  "config (once_Do f h) = (if once_done h then config h else config (f h))"
  "calls (once_Do f h) = (if once_done h then calls h else calls (f h))"
  "FileSystem (once_Do f h) = (if once_done h then FileSystem h else FileSystem (f h))"
  "once_done (once_Do f h) = True"
  "Prefix (once_Do f h) = (if once_done h then Prefix h else Prefix (f h))"
  by (simp_all add: once_Do_def)

lemma set_content_type_fields [simp]:
  "status (set_content_type x ctx) = status ctx"
  "body (set_content_type x ctx) = body ctx"
  "aborted (set_content_type x ctx) = aborted ctx"
  by (simp_all add: set_content_type_def Header_Content_Type_def)

lemma new_ctx_fields [simp]:
  "status new_ctx = 200" "body new_ctx = []" "content_type new_ctx = None"
  "aborted new_ctx = False"
  by (simp_all add: new_ctx_def)

lemma dispatch_doc_json:
  "dispatch e ''doc.json'' h ctx =
     (case ReadDoc e (InstanceName (config h)) of
        None \<Rightarrow> AbortWithStatus StatusInternalServerError ctx
      | Some doc \<Rightarrow>
          if writable e then ctx\<lparr>body := body ctx @ doc\<rparr>
          else AbortWithStatus StatusInternalServerError ctx,
      log_call (ReadDoc_call (InstanceName (config h))) h)"
  by (simp add: dispatch_def Write_def Let_def split: option.splits)

lemma dispatch_asset:
  "path \<noteq> ''index.html'' \<Longrightarrow> path \<noteq> ''doc.json'' \<Longrightarrow>
   dispatch e path h ctx =
     (case FileSystem h path of
        None \<Rightarrow> AbortWithStatus StatusInternalServerError ctx
      | Some f \<Rightarrow>
          (case fails_after f of
             Some k \<Rightarrow> AbortWithStatus StatusInternalServerError ctx
           | None \<Rightarrow>
               if writable e then ctx\<lparr>body := body ctx @ content f\<rparr>
               else AbortWithStatus StatusInternalServerError ctx),
      log_call (OpenFile_call path) h)"
  by (simp add: dispatch_def Write_def ReadFrom_def Let_def split: option.splits)

lemma dispatch_index:
  "dispatch e ''index.html'' h ctx =
     (if writable e then ctx\<lparr>body := body ctx @ Execute e (toSwaggerConfig (config h))\<rparr> else ctx,
      log_call Execute_call h)"
  by (simp add: dispatch_def Write_def)

lemma dispatch_content_type:
  "content_type (fst (dispatch e path h ctx)) = content_type ctx"
  by (cases "path = ''index.html''"; cases "path = ''doc.json''")
     (simp_all add: dispatch_index dispatch_doc_json dispatch_asset AbortWithStatus_def
        split: option.splits)

lemma dispatch_state:
  "snd (dispatch e path h ctx) =
     log_call (if path = ''index.html'' then Execute_call
               else if path = ''doc.json'' then ReadDoc_call (InstanceName (config h))
               else OpenFile_call path) h"
  by (cases "path = ''index.html''"; cases "path = ''doc.json''")
     (simp_all add: dispatch_index dispatch_doc_json dispatch_asset)

subsection \<open>Requests of the test, matched\<close>

lemma notfound_no_match: "FindStringSubmatch matcher 2 ''/notfound'' = []"
  by code_simp

lemma match_doc_json:
  "FindStringSubmatch matcher 2 ''/doc.json'' = [''/doc.json'', ''/'', ''doc.json'']"
  by code_simp

lemma match_index_html:
  "FindStringSubmatch matcher 2 ''/index.html'' = [''/index.html'', ''/'', ''index.html'']"
  by code_simp

lemma match_favicon:
  "FindStringSubmatch matcher 2 ''/favicon-16x16.png'' =
     [''/favicon-16x16.png'', ''/'', ''favicon-16x16.png'']"
  by code_simp

lemma match_css_map:
  "FindStringSubmatch matcher 2 ''/swagger-ui.css.map'' =
     [''/swagger-ui.css.'', ''/'', ''swagger-ui.css'']"
  by code_simp

lemma match_js:
  "FindStringSubmatch matcher 2 ''/swagger-ui.js'' =
     [''/swagger-ui.js'', ''/'', ''swagger-ui.js'']"
  by code_simp

lemma get_fields [simp]: "Method (get u) = MethodGet" "URI (get u) = u"
  by (simp_all add: get_def MethodGet_def)

lemma serve_get:
  "FindStringSubmatch matcher 2 u = [m0, m1, m2] \<Longrightarrow>
     serve e h (get u) =
       dispatch e m2 (once_Do (\<lambda>h'. h'\<lparr>Prefix := m1\<rparr>) h) (set_content_type (Ext m2) new_ctx)"
  by (rule serve_matched) simp_all

lemma test_handler_fields [simp]:
  "InstanceName (config test_handler) = swag_Name"
  "Title (config test_handler) = ''Swagger UI''"
  "FileSystem test_handler = test_files"
  "calls test_handler = []"
  "once_done test_handler = False"
  "Prefix test_handler = []"
  by (simp_all add: test_handler_def CustomWrapHandler_def normalize_def zero_config_def)

lemma log_call_fields [simp]:
  "calls (log_call k h) = calls h @ [k]"
  "config (log_call k h) = config h"
  "Prefix (log_call k h) = Prefix h"
  "once_done (log_call k h) = once_done h"
  "FileSystem (log_call k h) = FileSystem h"
  by (simp_all add: log_call_def)

subsection \<open>The shared state along a run\<close>

lemma serve_once_done:
  "once_done (snd (serve e h req)) \<longleftrightarrow> once_done h \<or> matched req"
  by (simp add: serve_def matched_def dispatch_state Let_def)

lemma serve_Prefix:
  "Prefix (snd (serve e h req)) =
     (if matched req \<and> \<not> once_done h then FindStringSubmatch matcher 2 (URI req) ! 1
      else Prefix h)"
  by (simp add: serve_def matched_def dispatch_state Let_def)

lemma serve_config: "config (snd (serve e h req)) = config h"
  by (simp add: serve_def dispatch_state Let_def)

lemma snd_serve_all_Cons:
  "snd (serve_all h ((e, req) # rs)) = snd (serve_all (snd (serve e h req)) rs)"
  by (simp split: prod.splits)

lemma serve_all_set:
  "once_done h \<Longrightarrow>
     once_done (snd (serve_all h rs)) \<and> Prefix (snd (serve_all h rs)) = Prefix h"
proof (induction rs arbitrary: h)
  case Nil
  then show ?case by simp
next
  case (Cons x rs)
  obtain e req where x: "x = (e, req)" by (cases x)
  have 1: "once_done (snd (serve e h req))" using Cons.prems by (simp add: serve_once_done)
  have 2: "Prefix (snd (serve e h req)) = Prefix h" using Cons.prems by (simp add: serve_Prefix)
  show ?case using Cons.IH [OF 1] 2 by (simp only: x snd_serve_all_Cons)
qed

lemma serve_all_unset:
  "\<not> once_done h \<Longrightarrow>
     (case find (\<lambda>x. matched (snd x)) rs of
        None \<Rightarrow> \<not> once_done (snd (serve_all h rs)) \<and> Prefix (snd (serve_all h rs)) = Prefix h
      | Some x \<Rightarrow> once_done (snd (serve_all h rs)) \<and>
          Prefix (snd (serve_all h rs)) = FindStringSubmatch matcher 2 (URI (snd x)) ! 1)"
proof (induction rs arbitrary: h)
  case Nil
  then show ?case by simp
next
  case (Cons x rs)
  obtain e req where x: "x = (e, req)" by (cases x)
  show ?case
  proof (cases "matched req")
    case True
    have 1: "once_done (snd (serve e h req))" using True by (simp add: serve_once_done)
    have 2: "Prefix (snd (serve e h req)) = FindStringSubmatch matcher 2 (URI req) ! 1"
      using True Cons.prems by (simp add: serve_Prefix)
    show ?thesis unfolding x snd_serve_all_Cons
      using serve_all_set [OF 1, of rs] 2 True by simp
  next
    case False
    have 1: "\<not> once_done (snd (serve e h req))" using False Cons.prems by (simp add: serve_once_done)
    have 2: "Prefix (snd (serve e h req)) = Prefix h"
      using False by (simp add: serve_Prefix)
    show ?thesis unfolding x snd_serve_all_Cons
      using Cons.IH [OF 1] 2 False by (simp split: option.splits)
  qed
qed

lemma match_a_index:
  "FindStringSubmatch matcher 2 ''/a/index.html'' = [''/a/index.html'', ''/a/'', ''index.html'']"
  by code_simp

lemma match_b_doc:
  "FindStringSubmatch matcher 2 ''/b/doc.json'' = [''/b/doc.json'', ''/b/'', ''doc.json'']"
  by code_simp

subsection \<open>Options\<close>

lemma apply_option_commute:
  "field_of a \<noteq> field_of b \<Longrightarrow>
     apply_option a (apply_option b c) = apply_option b (apply_option a c)"
  by (cases a; cases b)
     (simp_all add: SyntaxHighlight_opt_def URL_opt_def
        DocExpansion_opt_def DeepLinking_opt_def DefaultModelsExpandDepth_opt_def
        InstanceName_opt_def PersistAuthorization_opt_def Oauth2DefaultClientID_opt_def)

lemma apply_option_overwrite:
  "field_of a = field_of b \<Longrightarrow> apply_option b (apply_option a c) = apply_option b c"
  by (cases a; cases b)
     (simp_all add: SyntaxHighlight_opt_def URL_opt_def
        DocExpansion_opt_def DeepLinking_opt_def DefaultModelsExpandDepth_opt_def
        InstanceName_opt_def PersistAuthorization_opt_def Oauth2DefaultClientID_opt_def)

lemma serve_calls:
  "InstanceName (config h) \<noteq> [] \<Longrightarrow> ReadDoc_call [] \<notin> set (calls h) \<Longrightarrow>
     ReadDoc_call [] \<notin> set (calls (snd (serve e h req)))"
  by (simp add: serve_def dispatch_state Let_def)

lemma serve_all_calls:
  "InstanceName (config h) \<noteq> [] \<Longrightarrow> ReadDoc_call [] \<notin> set (calls h) \<Longrightarrow>
     ReadDoc_call [] \<notin> set (calls (snd (serve_all h rs)))"
proof (induction rs arbitrary: h)
  case Nil
  then show ?case by simp
next
  case (Cons x rs)
  obtain e req where x: "x = (e, req)" by (cases x)
  have 1: "InstanceName (config (snd (serve e h req))) \<noteq> []"
    using Cons.prems(1) by (simp add: serve_config)
  have 2: "ReadDoc_call [] \<notin> set (calls (snd (serve e h req)))"
    using Cons.prems by (rule serve_calls)
  show ?case unfolding x snd_serve_all_Cons using Cons.IH [OF 1 2] .
qed

lemma test_run_doc_json: "snd (serve_all test_handler [(test_env, get ''/doc.json'')]) = snd (serve test_env test_handler (get ''/doc.json''))"
  by (subst snd_serve_all_Cons) simp

lemma test_run_doc_json_calls: "calls (snd (serve test_env test_handler (get ''/doc.json''))) = [ReadDoc_call ''swagger'']"
  by (simp add: serve_get [OF match_doc_json] dispatch_state swag_Name_def)

subsection \<open>The \<^verbatim>\<open>.map\<close> alternatives\<close>

text \<open>
  Each \<^verbatim>\<open>.map\<close> name begins with the plain name listed before it, so wherever it could
  match, the plain name matches first.
\<close>

lemma map_name_has_plain_prefix:
  "prefix ''swagger-ui.css.map'' t \<Longrightarrow> prefix ''swagger-ui.css'' t"
  "prefix ''swagger-ui.js.map'' t \<Longrightarrow> prefix ''swagger-ui.js'' t"
  "prefix ''swagger-ui-bundle.js.map'' t \<Longrightarrow> prefix ''swagger-ui-bundle.js'' t"
  "prefix ''swagger-ui-standalone-preset.js.map'' t \<Longrightarrow>
     prefix ''swagger-ui-standalone-preset.js'' t"
  by (erule prefix_order.trans [rotated], simp)+

lemma name_at_plain:
  assumes "name_at t = Some n"
  shows "n \<in> {''index.html'', ''doc.json'', ''favicon-16x16.png'', ''favicon-32x32.png'',
      ''/oauth2-redirect.html'', ''swagger-ui.css'', ''swagger-ui.js'', ''swagger-ui-bundle.js'',
      ''swagger-ui-standalone-preset.js''}"
  using assms map_name_has_plain_prefix [of t]
  unfolding name_at_def resource_names_def
  by (simp split: if_splits)

lemma captured_name_plain:
  assumes "FindStringSubmatch matcher 2 s = [m0, m1, m2]"
  shows "m2 \<in> {''index.html'', ''doc.json'', ''favicon-16x16.png'', ''favicon-32x32.png'',
      ''/oauth2-redirect.html'', ''swagger-ui.css'', ''swagger-ui.js'', ''swagger-ui-bundle.js'',
      ''swagger-ui-standalone-preset.js''}"
proof -
  have "FindStringSubmatch matcher 2 s \<noteq> []" using assms by simp
  from FindStringSubmatch_match [OF this] obtain rest where "name_at (m2 @ rest) = Some m2"
    using assms by auto
  then show ?thesis by (rule name_at_plain)
qed

lemma matched_content_type:
  assumes "Method req = MethodGet"
    and "FindStringSubmatch matcher 2 (URI req) = [m0, m1, m2]"
  shows "content_type (fst (serve e h req)) =
     (if Ext m2 = ''.html'' then Some ''text/html; charset=utf-8''
      else if Ext m2 = ''.css'' then Some ''text/css; charset=utf-8''
      else if Ext m2 = ''.js'' then Some ''application/javascript''
      else if Ext m2 = ''.png'' then Some ''image/png''
      else if Ext m2 = ''.json'' then Some ''application/json; charset=utf-8''
      else None)"
  unfolding serve_matched [OF assms] dispatch_content_type
  by (simp add: set_content_type_def Header_Content_Type_def)

lemma matched_content_type_set:
  assumes "Method req = MethodGet"
    and "FindStringSubmatch matcher 2 (URI req) = [m0, m1, m2]"
  shows "content_type (fst (serve e h req)) \<noteq> None"
  using captured_name_plain [OF assms(2)]
  unfolding matched_content_type [OF assms]
  by (auto simp: Ext_def)

subsection \<open>\<^verbatim>\<open>TestCustomWrapHandler\<close>, replayed\<close>

text \<open>
  The requests of the repository's test (\<^verbatim>\<open>swagger_test.go\<close>, lines 62-102), in its order:
  the document is registered after the second request.  The model gives the status codes
  and content types the test asserts.
\<close>

lemma fst_serve_all_Cons:
  "fst (serve_all h ((e, req) # rs)) =
     fst (serve e h req) # fst (serve_all (snd (serve e h req)) rs)"
  by (simp split: prod.splits)

lemma match_css:
  "FindStringSubmatch matcher 2 ''/swagger-ui.css'' =
     [''/swagger-ui.css'', ''/'', ''swagger-ui.css'']"
  by code_simp

lemma match_bundle_js:
  "FindStringSubmatch matcher 2 ''/swagger-ui-bundle.js'' =
     [''/swagger-ui-bundle.js'', ''/'', ''swagger-ui-bundle.js'']"
  by code_simp

lemma serve_get_unmatched:
  "FindStringSubmatch matcher 2 u = [] \<Longrightarrow>
     serve e h (get u) = (String StatusNotFound (StatusText StatusNotFound) new_ctx, h)"
  by (rule serve_unmatched) simp_all

lemma repository_test:
  "map (\<lambda>ctx. (status ctx, content_type ctx))
     (fst (serve_all test_handler
        [(unregistered_env, get ''/index.html''),
         (unregistered_env, get ''/doc.json''),
         (test_env, get ''/doc.json''),
         (test_env, get ''/favicon-16x16.png''),
         (test_env, get ''/swagger-ui.css''),
         (test_env, get ''/swagger-ui-bundle.js''),
         (test_env, get ''/notfound''),
         (test_env, \<lparr> Method = ''POST'', URI = ''/index.html'' \<rparr>),
         (test_env, \<lparr> Method = ''PUT'', URI = ''/index.html'' \<rparr>)])) =
     [(200, Some ''text/html; charset=utf-8''),
      (500, Some ''application/json; charset=utf-8''),
      (200, Some ''application/json; charset=utf-8''),
      (200, Some ''image/png''),
      (200, Some ''text/css; charset=utf-8''),
      (200, Some ''application/javascript''),
      (404, Some ''text/plain; charset=utf-8''),
      (405, None),
      (405, None)]"
  unfolding fst_serve_all_Cons serve_all.simps
  by (simp add: serve_get [OF match_index_html] serve_get [OF match_doc_json]
      serve_get [OF match_favicon] serve_get [OF match_css] serve_get [OF match_bundle_js]
      serve_get_unmatched [OF notfound_no_match] serve_not_get MethodGet_def
      dispatch_index dispatch_doc_json dispatch_asset dispatch_state
      test_env_def unregistered_env_def test_files_def swag_Name_def
      AbortWithStatus_def String_def StatusNotFound_def StatusMethodNotAllowed_def
      StatusInternalServerError_def Ext_def set_content_type_def Header_Content_Type_def)

subsection \<open>What an option writes\<close>

lemma apply_option_writes:
  "read_field (field_of b) (apply_option b c) = argument b"
  by (cases b)
     (simp_all add: SyntaxHighlight_opt_def URL_opt_def
        DocExpansion_opt_def DeepLinking_opt_def DefaultModelsExpandDepth_opt_def
        InstanceName_opt_def PersistAuthorization_opt_def Oauth2DefaultClientID_opt_def)

lemma apply_option_frame:
  "f \<noteq> field_of b \<Longrightarrow> read_field f (apply_option b c) = read_field f c"
  by (cases b; cases f)
     (simp_all add: SyntaxHighlight_opt_def URL_opt_def
        DocExpansion_opt_def DeepLinking_opt_def DefaultModelsExpandDepth_opt_def
        InstanceName_opt_def PersistAuthorization_opt_def Oauth2DefaultClientID_opt_def)

lemma apply_options_snoc:
  "apply_options (fs @ [g]) c = g (apply_options fs c)"
  by (simp add: apply_options_def)

lemma apply_options_read:
  "read_field f (apply_options (map apply_option os) c) =
     (case find (\<lambda>k. field_of k = f) (rev os) of
        None \<Rightarrow> read_field f c
      | Some k \<Rightarrow> argument k)"
proof (induction os rule: rev_induct)
  case Nil
  show ?case by (simp add: apply_options_def)
next
  case (snoc k os)
  show ?case
  proof (cases "field_of k = f")
    case True
    then show ?thesis using apply_option_writes [of k] by (auto simp: apply_options_snoc)
  next
    case False
    then have "f \<noteq> field_of k" by simp
    from apply_option_frame [OF this] show ?thesis
      using False snoc.IH by (simp add: apply_options_snoc)
  qed
qed

subsection \<open>Requests as hertz presents them\<close>

lemma match_full_doc_json:
  "FindStringSubmatch matcher 2 ''http://localhost:8888/swagger/doc.json'' =
     [''http://localhost:8888/swagger/doc.json'', ''http://localhost:8888/swagger/'', ''doc.json'']"
  by code_simp

lemma match_full_notfound:
  "FindStringSubmatch matcher 2 ''http://localhost:8888/notfound'' = []"
  by code_simp

lemma match_full_index:
  "FindStringSubmatch matcher 2 ''http://example.com/swagger/index.html'' =
     [''http://example.com/swagger/index.html'', ''http://example.com/swagger/'', ''index.html'']"
  by code_simp

lemma match_doc_json_query:
  "FindStringSubmatch matcher 2 ''http:///doc.json?ui=index.html'' =
     [''http:///doc.json?ui=index.html'', ''http:///doc.json?ui='', ''index.html'']"
  by code_simp

lemma match_notfound_query:
  "FindStringSubmatch matcher 2 ''http:///notfound?x=doc.json'' =
     [''http:///notfound?x=doc.json'', ''http:///notfound?x='', ''doc.json'']"
  by code_simp

lemma request_for_doc_json:
  assumes "uri_path u = dir @ ''doc.json''" and "uri_query u = []" and "uri_hash u = []"
    and "CHR 0x0A \<notin> set (uri_scheme u @ uri_host u @ dir)"
  shows "\<exists>m0. FindStringSubmatch matcher 2 (FullURI u) =
     [m0, uri_scheme u @ ''://'' @ uri_host u @ dir, ''doc.json'']"
proof -
  have "CHR 0x0A \<notin> set (uri_scheme u @ ''://'' @ uri_host u @ dir)"
    using assms(4) by simp
  from FindStringSubmatch_doc_json [OF this] show ?thesis
    using assms(1-3) by (simp add: FullURI_def)
qed

section \<open>The claims\<close>

text \<open>
  Claim C1, as amended.  Take a GET request for which the handler reaches the
  \<^verbatim>\<open>doc.json\<close> case: the resource name the regex captures from the URI string is
  \<^verbatim>\<open>doc.json\<close>.  Every request whose path ends in \<^verbatim>\<open>doc.json\<close> and that has neither a
  query nor a fragment is one (\<open>request_for_doc_json\<close>).  The handler then makes one
  call to the Document Registry, with the instance name of the Configuration.  When the
  lookup fails the status is 500 and the body is empty.  When it succeeds and the context
  accepts the write, the status is 200 and the body is the registered document, byte for
  byte; the source also tests the result of the write, and answers 500 when it fails.
\<close>

theorem doc_json_lookup:
  assumes "Method req = MethodGet"
    and "FindStringSubmatch matcher 2 (URI req) = [m0, m1, ''doc.json'']"
  shows "calls (snd (serve e h req)) = calls h @ [ReadDoc_call (InstanceName (config h))] \<and>
     content_type (fst (serve e h req)) = Some ''application/json; charset=utf-8'' \<and>
     (case ReadDoc e (InstanceName (config h)) of
        None \<Rightarrow> status (fst (serve e h req)) = 500 \<and> body (fst (serve e h req)) = []
      | Some doc \<Rightarrow>
          if writable e
          then status (fst (serve e h req)) = 200 \<and> body (fst (serve e h req)) = doc
          else status (fst (serve e h req)) = 500)"
  unfolding serve_matched [OF assms] dispatch_doc_json
  by (simp add: AbortWithStatus_def StatusInternalServerError_def Ext_def set_content_type_def
      Header_Content_Type_def split: option.splits)

theorem doc_json_lookup_witness:
  "status (fst (serve test_env test_handler (get ''http://localhost:8888/swagger/doc.json''))) = 200 \<and>
   body (fst (serve test_env test_handler (get ''http://localhost:8888/swagger/doc.json''))) =
     test_doc \<and>
   status (fst (serve unregistered_env test_handler
     (get ''http://localhost:8888/swagger/doc.json''))) = 500 \<and>
   body (fst (serve unregistered_env test_handler
     (get ''http://localhost:8888/swagger/doc.json''))) = []"
  using doc_json_lookup [of "get ''http://localhost:8888/swagger/doc.json''"
      "''http://localhost:8888/swagger/doc.json''" "''http://localhost:8888/swagger/''"
      test_env test_handler]
    doc_json_lookup [of "get ''http://localhost:8888/swagger/doc.json''"
      "''http://localhost:8888/swagger/doc.json''" "''http://localhost:8888/swagger/''"
      unregistered_env test_handler]
  by (simp add: match_full_doc_json test_env_def unregistered_env_def)

text \<open>
  Claim C1 as stated speaks of every GET request whose trailing path segment is
  \<^verbatim>\<open>doc.json\<close>.  The handler matches the whole URI string, and the greedy first group
  runs on into the query: for the path \<^verbatim>\<open>/doc.json\<close> with the query
  \<^verbatim>\<open>ui=index.html\<close> the captured name is \<^verbatim>\<open>index.html\<close>.  With nothing registered,
  where the claim has 500 and no body, the response is 200 with the rendered page, and the
  Document Registry is not called.
\<close>

theorem trailing_doc_json_counterexample:
  "FullURI \<lparr> uri_scheme = ''http'', uri_host = [], uri_path = ''/doc.json'',
             uri_query = ''ui=index.html'', uri_hash = [] \<rparr> = ''http:///doc.json?ui=index.html'' \<and>
   last_segment ''/doc.json'' = ''doc.json'' \<and>
   ReadDoc unregistered_env (InstanceName (config test_handler)) = None \<and>
   status (fst (serve unregistered_env test_handler (get ''http:///doc.json?ui=index.html''))) = 200 \<and>
   body (fst (serve unregistered_env test_handler (get ''http:///doc.json?ui=index.html''))) =
     ''<title>Swagger UI</title>'' \<and>
   calls (snd (serve unregistered_env test_handler (get ''http:///doc.json?ui=index.html''))) =
     [Execute_call]"
  by (simp add: FullURI_def last_segment_def serve_get [OF match_doc_json_query]
      dispatch_index dispatch_state unregistered_env_def toSwaggerConfig_def)

text \<open>
  Claim C2, as amended.  The regex is applied to the whole URI string and finds a match
  exactly in the strings that contain a recognized resource name: some text, then one of
  the names, then possibly more text (\<open>FindStringSubmatch_Nil_iff\<close>).  A GET request whose
  URI string holds no recognized name anywhere, in host, path, query or fragment, is
  answered with status 404, content type text/plain and the body \<^verbatim>\<open>Not Found\<close>, the text
  of the status, and the shared state is untouched.  The witness is a request for
  \<^verbatim>\<open>/notfound\<close>.
\<close>

theorem unmatched_not_found:
  assumes "Method req = MethodGet"
    and "\<forall>a n b. n \<in> set resource_names \<longrightarrow> URI req \<noteq> a @ n @ b"
  shows "serve e h req =
     (\<lparr> status = 404, content_type = Some ''text/plain; charset=utf-8'',
        body = ''Not Found'', aborted = False \<rparr>, h)"
proof -
  have "FindStringSubmatch matcher 2 (URI req) = []"
    using assms(2) by (simp only: FindStringSubmatch_Nil_iff)
  from serve_unmatched [OF assms(1) this] show ?thesis
    by (simp add: String_def StatusNotFound_def StatusText_def new_ctx_def)
qed

theorem unmatched_not_found_witness:
  "Method (get ''http://localhost:8888/notfound'') = MethodGet \<and>
   serve test_env test_handler (get ''http://localhost:8888/notfound'') =
     (\<lparr> status = 404, content_type = Some ''text/plain; charset=utf-8'',
        body = ''Not Found'', aborted = False \<rparr>, test_handler)"
proof -
  have m: "Method (get ''http://localhost:8888/notfound'') = MethodGet"
    by (simp add: get_def MethodGet_def)
  have u: "\<forall>a n b. n \<in> set resource_names \<longrightarrow>
      URI (get ''http://localhost:8888/notfound'') \<noteq> a @ n @ b"
    using match_full_notfound by (simp only: FindStringSubmatch_Nil_iff get_def Request.simps)
  show ?thesis using m unmatched_not_found [OF m u] by blast
qed

text \<open>
  Claim C2 as stated speaks of every GET request whose path is outside the allow-list.
  The path \<^verbatim>\<open>/notfound\<close> is: the regex finds nothing in it.  Requested with the query
  \<^verbatim>\<open>x=doc.json\<close> it is answered with status 200 and the registered document, since the
  name is found in the query.
\<close>

theorem path_unmatched_counterexample:
  "FullURI \<lparr> uri_scheme = ''http'', uri_host = [], uri_path = ''/notfound'',
             uri_query = ''x=doc.json'', uri_hash = [] \<rparr> = ''http:///notfound?x=doc.json'' \<and>
   FindStringSubmatch matcher 2 ''/notfound'' = [] \<and>
   status (fst (serve test_env test_handler (get ''http:///notfound?x=doc.json''))) = 200 \<and>
   body (fst (serve test_env test_handler (get ''http:///notfound?x=doc.json''))) = test_doc"
  by (simp add: FullURI_def notfound_no_match serve_get [OF match_notfound_query]
      dispatch_doc_json test_env_def)

text \<open>
  Claim C3.  A request whose method is not GET, whatever its URI, is answered with status
  405 and an empty body; the context is aborted, so nothing more is processed; and the
  state the handler shares between requests comes back as it was: no call to the Document
  Registry or to the Asset Store is recorded and the Route Prefix is not written.
\<close>

theorem non_get_rejected:
  "Method req \<noteq> MethodGet \<Longrightarrow>
     serve e h req = (\<lparr> status = 405, content_type = None, body = [], aborted = True \<rparr>, h)"
  by (simp add: serve_not_get AbortWithStatus_def StatusMethodNotAllowed_def new_ctx_def)

theorem non_get_rejected_witness:
  "Method \<lparr> Method = ''POST'', URI = ''/index.html'' \<rparr> \<noteq> MethodGet \<and>
   serve test_env test_handler \<lparr> Method = ''POST'', URI = ''/index.html'' \<rparr> =
     (\<lparr> status = 405, content_type = None, body = [], aborted = True \<rparr>, test_handler)"
  using non_get_rejected [of "\<lparr> Method = ''POST'', URI = ''/index.html'' \<rparr>" test_env test_handler]
  by (simp add: MethodGet_def)

text \<open>
  Claim C4.  A fresh handler has its \<^verbatim>\<open>sync.Once\<close> unused.  In any run of requests from a
  state \<open>h\<close>: when the Once was already used, it stays used and the Route Prefix at the
  end is the one at the start; when it was not, then either no request of the run is a
  matched GET, and the Once is still unused and the Prefix unwritten at the end, or the
  Once is used and the Prefix is the one captured from the first matched GET of the run,
  whatever came after it.  So the Prefix is written once, by the first match, and the
  state never goes back from set to unset.
\<close>

theorem prefix_written_once:
  "\<not> once_done (CustomWrapHandler cfg pfx fs) \<and>
   (once_done h \<longrightarrow>
      once_done (snd (serve_all h rs)) \<and> Prefix (snd (serve_all h rs)) = Prefix h) \<and>
   (\<not> once_done h \<longrightarrow>
      (case find (\<lambda>x. matched (snd x)) rs of
         None \<Rightarrow> \<not> once_done (snd (serve_all h rs)) \<and> Prefix (snd (serve_all h rs)) = Prefix h
       | Some x \<Rightarrow> once_done (snd (serve_all h rs)) \<and>
           Prefix (snd (serve_all h rs)) = FindStringSubmatch matcher 2 (URI (snd x)) ! 1))"
  using serve_all_set [of h rs] serve_all_unset [of h rs]
  by (simp add: CustomWrapHandler_def)

theorem prefix_written_once_witness:
  "\<not> once_done test_handler \<and>
   once_done (snd (serve_all test_handler
      [(test_env, get ''/notfound''), (test_env, get ''/a/index.html''),
       (test_env, get ''/b/doc.json'')])) \<and>
   Prefix (snd (serve_all test_handler
      [(test_env, get ''/notfound''), (test_env, get ''/a/index.html''),
       (test_env, get ''/b/doc.json'')])) = ''/a/''"
  using prefix_written_once [of zero_config "[]" test_files test_handler
      "[(test_env, get ''/notfound''), (test_env, get ''/a/index.html''),
        (test_env, get ''/b/doc.json'')]"]
  by (simp add: matched_def notfound_no_match match_a_index)

text \<open>
  Claim C5, as amended.  A match has exactly two groups.  For the first matched GET
  request of a handler the Route Prefix becomes the first group \<open>m1\<close>, and the string the
  handler matches, the whole \<^verbatim>\<open>URI().String()\<close>, reads \<open>pre @ m1 @ m2 @ rest\<close> with \<open>m2\<close>
  a recognized resource name after which, up to the end of the line, no recognized name
  begins: \<open>m1\<close> is the text before the last name, scheme and host included.  It holds
  no newline, and \<open>pre\<close>, the part of the string the match does not cover, is empty unless
  the string has a newline, in which case \<open>pre\<close> ends with one.
\<close>

theorem prefix_is_text_before_name:
  assumes "\<not> once_done h" and "Method req = MethodGet"
    and "FindStringSubmatch matcher 2 (URI req) \<noteq> []"
  shows "\<exists>m0 m1 m2 pre rest.
      FindStringSubmatch matcher 2 (URI req) = [m0, m1, m2] \<and>
      Prefix (snd (serve e h req)) = m1 \<and>
      URI req = pre @ m1 @ m2 @ rest \<and>
      m2 \<in> set resource_names \<and>
      CHR 0x0A \<notin> set m1 \<and>
      (pre = [] \<or> last pre = CHR 0x0A) \<and>
      (\<forall>j. 0 < j \<and> j \<le> line_len (m2 @ rest) \<longrightarrow>
           (\<forall>n\<in>set resource_names. \<not> prefix n (drop j (m2 @ rest))))"
proof -
  from FindStringSubmatch_match [OF assms(3)] obtain m0 pre p n rest where
    m: "FindStringSubmatch matcher 2 (URI req) = [m0, p, n]"
    and u: "URI req = pre @ p @ n @ rest"
    and n: "name_at (n @ rest) = Some n" and p: "CHR 0x0A \<notin> set p"
    and pre: "pre = [] \<or> last pre = CHR 0x0A"
    and later: "\<forall>j. 0 < j \<and> j \<le> line_len (n @ rest) \<longrightarrow> name_at (drop j (n @ rest)) = None"
    by blast
  have "Prefix (snd (serve e h req)) = p"
    using assms(1,2) m by (simp add: serve_Prefix matched_def)
  moreover have "n \<in> set resource_names" using name_at_SomeD [OF n] by simp
  moreover have "\<forall>j. 0 < j \<and> j \<le> line_len (n @ rest) \<longrightarrow>
      (\<forall>k\<in>set resource_names. \<not> prefix k (drop j (n @ rest)))"
    using later by (simp add: name_at_None_iff)
  ultimately show ?thesis using m u p pre by blast
qed

theorem prefix_is_text_before_name_witness:
  "Prefix (snd (serve test_env test_handler (get ''http://example.com/swagger/index.html''))) =
     ''http://example.com/swagger/''"
  using prefix_is_text_before_name
    [of test_handler "get ''http://example.com/swagger/index.html''" test_env]
  by (simp add: match_full_index)

text \<open>
  Claim C5 as stated has the Route Prefix equal to the part of the URL path before the
  resource name.  For the request of \<^verbatim>\<open>/swagger/index.html\<close> on the host
  \<^verbatim>\<open>example.com\<close> that part is \<^verbatim>\<open>/swagger/\<close>; the Prefix recorded is
  \<^verbatim>\<open>http://example.com/swagger/\<close>.
\<close>

theorem prefix_counterexample:
  "FullURI \<lparr> uri_scheme = ''http'', uri_host = ''example.com'',
             uri_path = ''/swagger/index.html'', uri_query = [], uri_hash = [] \<rparr> =
     ''http://example.com/swagger/index.html'' \<and>
   ''/swagger/index.html'' = ''/swagger/'' @ ''index.html'' \<and>
   Prefix (snd (serve test_env test_handler (get ''http://example.com/swagger/index.html''))) =
     ''http://example.com/swagger/'' \<and>
   Prefix (snd (serve test_env test_handler (get ''http://example.com/swagger/index.html''))) \<noteq>
     ''/swagger/''"
  by (simp add: FullURI_def serve_get [OF match_full_index] dispatch_state)

text \<open>
  Claim C6.  The content type is a function of the extension of the captured resource
  name, by the table of the claim (\<open>matched_content_type\<close>).  But the regex lists each
  \<^verbatim>\<open>.map\<close> name after the name it extends, and an alternation takes the first
  alternative that matches, so no \<^verbatim>\<open>.map\<close> name is ever captured
  (\<open>captured_name_plain\<close>) and every matched request gets a content type
  (\<open>matched_content_type_set\<close>).  The request for \<^verbatim>\<open>/swagger-ui.css.map\<close>, whose
  extension is \<^verbatim>\<open>.map\<close>, is answered with the content type of a style sheet and with
  the content of \<^verbatim>\<open>swagger-ui.css\<close>, the file the handler opens for it.
\<close>

theorem css_map_served_as_css:
  "content_type (fst (serve test_env test_handler (get ''/swagger-ui.css.map''))) =
     Some ''text/css; charset=utf-8'' \<and>
   calls (snd (serve test_env test_handler (get ''/swagger-ui.css.map''))) =
     [OpenFile_call ''swagger-ui.css''] \<and>
   body (fst (serve test_env test_handler (get ''/swagger-ui.css.map''))) = ''body{}'' \<and>
   Ext ''swagger-ui.css.map'' = ''.map''"
  by (simp add: serve_get [OF match_css_map] dispatch_content_type dispatch_state
      dispatch_asset test_files_def test_env_def Ext_def set_content_type_def
      Header_Content_Type_def)

text \<open>
  Claim C7.  Take a GET request whose captured resource name \<open>m2\<close> is neither
  \<^verbatim>\<open>index.html\<close> nor \<^verbatim>\<open>doc.json\<close>.  The handler makes one call to the Asset Store,
  opening \<open>m2\<close>.  When the open fails the status is 500 and the body is empty.  When
  reading the file fails the status is 500.  Otherwise the whole content is written and
  the status is 200 with the body equal to the content (500 when the context refuses the
  write, which the source tests as well).
\<close>

theorem asset_served:
  assumes "Method req = MethodGet"
    and "FindStringSubmatch matcher 2 (URI req) = [m0, m1, m2]"
    and "m2 \<noteq> ''index.html''" and "m2 \<noteq> ''doc.json''"
  shows "calls (snd (serve e h req)) = calls h @ [OpenFile_call m2] \<and>
     (case FileSystem h m2 of
        None \<Rightarrow> status (fst (serve e h req)) = 500 \<and> body (fst (serve e h req)) = []
      | Some f \<Rightarrow>
          (case fails_after f of
             Some k \<Rightarrow> status (fst (serve e h req)) = 500
           | None \<Rightarrow>
               if writable e
               then status (fst (serve e h req)) = 200 \<and> body (fst (serve e h req)) = content f
               else status (fst (serve e h req)) = 500))"
  unfolding serve_matched [OF assms(1,2)] dispatch_asset [OF assms(3,4)]
  by (simp add: AbortWithStatus_def StatusInternalServerError_def split: option.splits)

theorem asset_served_witness:
  "status (fst (serve test_env test_handler (get ''/favicon-16x16.png''))) = 200 \<and>
   body (fst (serve test_env test_handler (get ''/favicon-16x16.png''))) = ''PNG16'' \<and>
   calls (snd (serve test_env test_handler (get ''/favicon-16x16.png''))) =
     [OpenFile_call ''favicon-16x16.png'']"
  using asset_served [of "get ''/favicon-16x16.png''" "''/favicon-16x16.png''" "''/''"
      "''favicon-16x16.png''" test_env test_handler]
  by (simp add: match_favicon test_env_def test_files_def)

text \<open>
  Claim C8, as amended.  The handler reads the asset into a buffer of its own
  (\<^verbatim>\<open>buf.ReadFrom(f)\<close>) and writes to the response only after the read has succeeded.
  When the read fails part-way, the bytes read so far stay in the buffer: the response is
  aborted with status 500 and its body is empty.
\<close>

theorem failed_read_writes_nothing:
  assumes "Method req = MethodGet"
    and "FindStringSubmatch matcher 2 (URI req) = [m0, m1, m2]"
    and "m2 \<noteq> ''index.html''" and "m2 \<noteq> ''doc.json''"
    and "FileSystem h m2 = Some f" and "fails_after f = Some k"
  shows "status (fst (serve e h req)) = 500 \<and> body (fst (serve e h req)) = [] \<and>
     aborted (fst (serve e h req))"
  unfolding serve_matched [OF assms(1,2)] dispatch_asset [OF assms(3,4)]
  using assms(5,6)
  by (simp add: AbortWithStatus_def StatusInternalServerError_def)

theorem failed_read_writes_nothing_witness:
  "status (fst (serve test_env test_handler (get ''/swagger-ui.js''))) = 500 \<and>
   body (fst (serve test_env test_handler (get ''/swagger-ui.js''))) = [] \<and>
   aborted (fst (serve test_env test_handler (get ''/swagger-ui.js'')))"
  using failed_read_writes_nothing [of "get ''/swagger-ui.js''" "''/swagger-ui.js''" "''/''"
      "''swagger-ui.js''" test_handler "\<lparr> content = ''var ui;'', fails_after = Some 3 \<rparr>" 3 test_env]
  by (simp add: match_js test_files_def)

text \<open>
  Claim C8 as stated says that a partial body is written before the failure.  In the test
  Asset Store the file \<^verbatim>\<open>swagger-ui.js\<close> fails after three bytes: \<^verbatim>\<open>ReadFrom\<close> returns the
  buffer \<^verbatim>\<open>var\<close> and an error, and the body of the response is empty.
\<close>

theorem partial_body_counterexample:
  "fst (ReadFrom (the (test_files ''swagger-ui.js''))) = ''var'' \<and>
   snd (ReadFrom (the (test_files ''swagger-ui.js''))) = Some ReadError \<and>
   body (fst (serve test_env test_handler (get ''/swagger-ui.js''))) = []"
  by (simp add: serve_get [OF match_js] dispatch_asset test_files_def ReadFrom_def
      AbortWithStatus_def)

text \<open>
  Claim C9.  An option function writes its argument into its field and leaves every other
  field as it was.  Two option functions that assign different fields commute, on every
  Configuration, and so \<^verbatim>\<open>WrapHandler\<close> builds the same handler from them in either
  order.  Of two that assign the same field the second one wins: the field holds its
  argument.  For a whole list of options applied from left to right, each field ends up
  holding the argument of the last option of the list that assigns it, and its former
  content when there is none.  In particular \<^verbatim>\<open>DocExpansion("list")\<close> followed by
  \<^verbatim>\<open>DocExpansion("full")\<close> leaves \<^verbatim>\<open>DocExpansion\<close> equal to \<^verbatim>\<open>full\<close>.
\<close>

theorem options_commute_last_wins:
  "read_field (field_of b) (apply_option b c) = argument b \<and>
   (f \<noteq> field_of b \<longrightarrow> read_field f (apply_option b c) = read_field f c) \<and>
   (field_of a \<noteq> field_of b \<longrightarrow>
      apply_option a (apply_option b c) = apply_option b (apply_option a c) \<and>
      WrapHandler pfx fs [apply_option a, apply_option b] =
        WrapHandler pfx fs [apply_option b, apply_option a]) \<and>
   (field_of a = field_of b \<longrightarrow>
      read_field (field_of b) (apply_option b (apply_option a c)) = argument b \<and>
      apply_option b (apply_option a c) = apply_option b c) \<and>
   read_field f (apply_options (map apply_option os) c) =
     (case find (\<lambda>k. field_of k = f) (rev os) of
        None \<Rightarrow> read_field f c
      | Some k \<Rightarrow> argument k) \<and>
   DocExpansion (apply_options [DocExpansion_opt ''list'', DocExpansion_opt ''full''] c) = ''full''"
proof -
  have "WrapHandler pfx fs [apply_option a, apply_option b] =
      WrapHandler pfx fs [apply_option b, apply_option a]" if "field_of a \<noteq> field_of b"
    using apply_option_commute [OF that, of default_config]
    by (simp add: WrapHandler_def apply_options_def)
  moreover have "DocExpansion (apply_options [DocExpansion_opt ''list'', DocExpansion_opt ''full''] c) = ''full''"
    by (simp add: apply_options_def DocExpansion_opt_def)
  moreover note apply_option_writes [of b c] apply_option_writes [of b "apply_option a c"]
    apply_option_frame [of f b c] apply_options_read [of f os c]
  ultimately show ?thesis
    using apply_option_commute [of a b c] apply_option_overwrite [of a b c] by blast
qed

theorem options_commute_last_wins_witness:
  "read_field F_URL (apply_option (Call_URL ''x.json'') default_config) = String_value ''x.json'' \<and>
   read_field F_Title (apply_option (Call_URL ''x.json'') default_config) =
     String_value ''Swagger UI'' \<and>
   apply_option (Call_URL ''x.json'') (apply_option (Call_DeepLinking False) default_config) =
     apply_option (Call_DeepLinking False) (apply_option (Call_URL ''x.json'') default_config) \<and>
   read_field F_DocExpansion
     (apply_option (Call_DocExpansion ''full'')
        (apply_option (Call_DocExpansion ''list'') default_config)) = String_value ''full'' \<and>
   read_field F_DocExpansion
     (apply_options
        (map apply_option [Call_DocExpansion ''none'', Call_URL ''x.json'', Call_DocExpansion ''full''])
        default_config) = String_value ''full'' \<and>
   DocExpansion (apply_options [DocExpansion_opt ''list'', DocExpansion_opt ''full''] default_config) =
     ''full''"
  using options_commute_last_wins [of "Call_URL ''x.json''" default_config F_Title
      "Call_DeepLinking False" "[]" "(\<lambda>x. None)" "[]"]
    options_commute_last_wins [of "Call_DocExpansion ''full''" default_config F_DocExpansion
      "Call_DocExpansion ''list''" "[]" "(\<lambda>x. None)"
      "[Call_DocExpansion ''none'', Call_URL ''x.json'', Call_DocExpansion ''full'']"]
  by (simp add: default_config_def)

text \<open>
  Claim C10.  In the handler \<^verbatim>\<open>CustomWrapHandler\<close> builds, an empty instance name has been
  replaced by \<^verbatim>\<open>swag.Name\<close> and an empty title by \<^verbatim>\<open>Swagger UI\<close>, before any request is
  served.  The handler never assigns the Configuration, so after any run of requests the
  instance name is still not empty, and no call to the Document Registry made in the run
  has the empty name.  (The Configuration is written by the handler alone here; a caller
  that keeps the pointer and assigns the field later is outside this statement.)
\<close>

theorem config_normalized:
  "InstanceName (config (CustomWrapHandler cfg pfx fs)) =
     (if InstanceName cfg = [] then swag_Name else InstanceName cfg) \<and>
   Title (config (CustomWrapHandler cfg pfx fs)) =
     (if Title cfg = [] then ''Swagger UI'' else Title cfg) \<and>
   InstanceName (config (snd (serve_all (CustomWrapHandler cfg pfx fs) rs))) \<noteq> [] \<and>
   ReadDoc_call [] \<notin> set (calls (snd (serve_all (CustomWrapHandler cfg pfx fs) rs)))"
proof -
  let ?h = "CustomWrapHandler cfg pfx fs"
  have 1: "InstanceName (config ?h) = (if InstanceName cfg = [] then swag_Name else InstanceName cfg)"
    by (simp add: CustomWrapHandler_def normalize_def Let_def)
  have 2: "Title (config ?h) = (if Title cfg = [] then ''Swagger UI'' else Title cfg)"
    by (simp add: CustomWrapHandler_def normalize_def Let_def)
  have 3: "InstanceName (config ?h) \<noteq> []" unfolding 1 by (simp add: swag_Name_def)
  have 4: "ReadDoc_call [] \<notin> set (calls ?h)" by (simp add: CustomWrapHandler_def)
  have 5: "config (snd (serve_all h rs)) = config h" for h
  proof (induction rs arbitrary: h)
    case Nil
    show ?case by simp
  next
    case (Cons x rs)
    obtain e req where x: "x = (e, req)" by (cases x)
    show ?case using Cons.IH [of "snd (serve e h req)"]
      by (simp only: x snd_serve_all_Cons serve_config)
  qed
  show ?thesis using 1 2 3 serve_all_calls [OF 3 4] by (simp add: 5)
qed

theorem config_normalized_witness:
  "InstanceName (config test_handler) = ''swagger'' \<and>
   Title (config test_handler) = ''Swagger UI'' \<and>
   ReadDoc_call [] \<notin> set (calls (snd (serve_all test_handler [(test_env, get ''/doc.json'')]))) \<and>
   calls (snd (serve_all test_handler [(test_env, get ''/doc.json'')])) = [ReadDoc_call ''swagger'']"
  using config_normalized [of zero_config "[]" test_files "[(test_env, get ''/doc.json'')]",
      folded test_handler_def] test_run_doc_json_calls
  by (simp only: test_run_doc_json) (simp add: swag_Name_def)

end
